theory Spec2Isabelle
  imports Complex_Main
begin

section \<open>Data model\<close>

text \<open>
  The rules and analysis engine of the Go tutor (\<open>utils/goLogic\<close>).  A coordinate is the
  pair \<open>(x, y)\<close> of the source's \<open>{x, y}\<close> object: \<open>x\<close> the column, \<open>y\<close> the row.  The source's
  \<open>number\<close> is modelled by \<open>int\<close>; fractional coordinates are outside the model.
\<close>

datatype StoneColor = EMPTY | BLACK | WHITE

type_synonym Coordinate = "int \<times> int"

type_synonym Grid = "StoneColor list list"

datatype error = TypeError

definition BOARD_SIZE :: int where
  "BOARD_SIZE = 19"

text \<open>
  JavaScript array indexing \<open>xs[i]\<close>: an index outside the array reads \<open>undefined\<close>
  (here \<open>None\<close>).  Reading a property of \<open>undefined\<close> throws a \<open>TypeError\<close>, so
  \<open>grid[y][x]\<close> throws when row \<open>y\<close> does not exist and reads \<open>undefined\<close> when the row
  exists and column \<open>x\<close> does not.
\<close>

definition index :: "'a list \<Rightarrow> int \<Rightarrow> 'a option" where
  "index xs i = (if 0 \<le> i \<and> i < int (length xs) then Some (xs ! nat i) else None)"

definition cell :: "Grid \<Rightarrow> int \<Rightarrow> int \<Rightarrow> error + StoneColor option" where
  "cell g x y = (case index g y of None \<Rightarrow> Inl TypeError | Some row \<Rightarrow> Inr (index row x))"

definition createEmptyGrid :: "nat \<Rightarrow> Grid" where
  "createEmptyGrid n = replicate n (replicate n EMPTY)"

definition getNeighbors :: "int \<Rightarrow> int \<Rightarrow> int \<Rightarrow> Coordinate list" where
  "getNeighbors x y sz =
     (if x > 0 then [(x - 1, y)] else []) @
     (if x < sz - 1 then [(x + 1, y)] else []) @
     (if y > 0 then [(x, y - 1)] else []) @
     (if y < sz - 1 then [(x, y + 1)] else [])"

section \<open>Textual coordinates\<close>

text \<open>Template-literal rendering of an integer-valued \<open>number\<close>.\<close>

fun decimal :: "nat \<Rightarrow> string" where
  "decimal n = (if n < 10 then [''0123456789'' ! n]
                else decimal (n div 10) @ [''0123456789'' ! (n mod 10)])"

declare decimal.simps [simp del]

definition numberToString :: "int \<Rightarrow> string" where
  "numberToString i = (if i < 0 then CHR ''-'' # decimal (nat (- i)) else decimal (nat i))"

definition letters :: string where
  "letters = ''ABCDEFGHJKLMNOPQRST''"

definition toGtpCoordinate :: "int \<Rightarrow> int \<Rightarrow> string" where
  "toGtpCoordinate x y =
     (if x < 0 \<or> x \<ge> 19 \<or> y < 0 \<or> y \<ge> 19 then ''pass''
      else (letters ! nat x) # numberToString (19 - y))"

section \<open>Group and liberty resolver\<close>

text \<open>
  \<open>checkLiberties\<close> is an iterative flood fill.  The source's \<open>visited\<close> set holds the keys
  \<open>"x,y"\<close>, which determine the coordinate, so it is modelled as a set of coordinates.  The
  stack is a list whose head is the top: \<open>push\<close> is \<open>#\<close> and \<open>pop\<close> takes the head.  The
  neighbours are always enumerated with the default size \<open>BOARD_SIZE\<close>, as in the source, which
  never passes the size of the grid.  \<open>scanNeighbors\<close> is the inner \<open>for\<close> loop: it carries the
  liberty flag and the stack, and stops with the error when \<open>grid[n.y][n.x]\<close> throws.

  The colour is a \<open>StoneColor option\<close>: \<open>Some c\<close> is a colour of the enumeration and \<open>None\<close> is
  the value \<open>undefined\<close>, which \<open>analyzeSafetyHeuristic\<close> hands over when it reads a cell missing
  from a short row.  The comparison \<open>stone === color\<close> then holds for every neighbour that
  reads \<open>undefined\<close>.
\<close>

fun scanNeighbors ::
  "Grid \<Rightarrow> StoneColor option \<Rightarrow> Coordinate set \<Rightarrow> Coordinate list \<Rightarrow> bool \<times> Coordinate list
     \<Rightarrow> error + bool \<times> Coordinate list" where
  "scanNeighbors g c vis [] acc = Inr acc"
| "scanNeighbors g c vis (n # ns) (lib, st) =
     (case cell g (fst n) (snd n) of
        Inl e \<Rightarrow> Inl e
      | Inr stone \<Rightarrow>
          if stone = Some EMPTY then scanNeighbors g c vis ns (True, st)
          else if stone = c \<and> n \<notin> vis then scanNeighbors g c vis ns (lib, n # st)
          else scanNeighbors g c vis ns (lib, st))"

text \<open>
  For the termination of the loop: every point pushed on the stack lies in a row of the
  grid, and in a column between the columns already on the stack, 0 and 18.
\<close>

definition columnSpan :: "Coordinate list \<Rightarrow> int set" where
  "columnSpan st =
     {x. \<exists>a \<in> insert 0 (fst ` set st). \<exists>b \<in> insert 18 (fst ` set st). a \<le> x \<and> x \<le> b}"

definition floodRegion :: "Grid \<Rightarrow> Coordinate list \<Rightarrow> Coordinate set" where
  "floodRegion g st = columnSpan st \<times> {0 ..< int (length g)}"

lemma index_Some_range: "index xs i = Some v \<Longrightarrow> 0 \<le> i \<and> i < int (length xs)"
  by (auto simp: index_def split: if_splits)

lemma finite_columnSpan: "finite (columnSpan st)"
proof -
  let ?A = "insert 0 (fst ` set st)" and ?B = "insert 18 (fst ` set st)"
  have "columnSpan st \<subseteq> {Min ?A .. Max ?B}"
  proof
    fix x assume "x \<in> columnSpan st"
    then obtain a b where ab: "a \<in> ?A" "b \<in> ?B" "a \<le> x" "x \<le> b"
      unfolding columnSpan_def by blast
    have "Min ?A \<le> a" using ab(1) by (intro Min_le) auto
    moreover have "b \<le> Max ?B" using ab(2) by (intro Max_ge) auto
    ultimately show "x \<in> {Min ?A .. Max ?B}" using ab(3,4) by simp
  qed
  then show ?thesis by (rule finite_subset) simp
qed

lemma finite_floodRegion: "finite (floodRegion g st)"
  by (simp add: floodRegion_def finite_columnSpan)

lemma columnSpan_self: "p \<in> set st \<Longrightarrow> fst p \<in> columnSpan st"
  unfolding columnSpan_def by blast

lemma columnSpan_hull:
  assumes "fst ` set st' \<subseteq> columnSpan st"
  shows "columnSpan st' \<subseteq> columnSpan st"
proof
  fix x assume "x \<in> columnSpan st'"
  then obtain a b where ab: "a \<in> insert 0 (fst ` set st')" "b \<in> insert 18 (fst ` set st')"
    "a \<le> x" "x \<le> b"
    unfolding columnSpan_def by blast
  have "\<exists>a' \<in> insert 0 (fst ` set st). a' \<le> a"
  proof (cases "a = 0")
    case True
    then show ?thesis by blast
  next
    case False
    with ab(1) assms have "a \<in> columnSpan st" by blast
    then show ?thesis unfolding columnSpan_def by blast
  qed
  then obtain a' where a': "a' \<in> insert 0 (fst ` set st)" "a' \<le> a" by blast
  have "\<exists>b' \<in> insert 18 (fst ` set st). b \<le> b'"
  proof (cases "b = 18")
    case True
    then show ?thesis by blast
  next
    case False
    with ab(2) assms have "b \<in> columnSpan st" by blast
    then show ?thesis unfolding columnSpan_def by blast
  qed
  then obtain b' where b': "b' \<in> insert 18 (fst ` set st)" "b \<le> b'" by blast
  from ab(3,4) a'(2) b'(2) have "a' \<le> x" "x \<le> b'" by simp_all
  with a'(1) b'(1) show "x \<in> columnSpan st" unfolding columnSpan_def by blast
qed

lemma neighbor_column:
  assumes "n \<in> set (getNeighbors (fst cur) (snd cur) BOARD_SIZE)" "cur \<in> set st"
  shows "fst n \<in> columnSpan st"
proof -
  from assms(2) have c: "fst cur \<in> fst ` set st" by (rule imageI)
  from assms(1) consider "fst n = fst cur" | "fst cur > 0" "fst n = fst cur - 1"
    | "fst cur < 18" "fst n = fst cur + 1"
    by (auto simp: getNeighbors_def BOARD_SIZE_def split: if_splits)
  then show ?thesis
  proof cases
    case 1
    with assms(2) show ?thesis by (metis columnSpan_self)
  next
    case 2
    have "0 \<in> insert 0 (fst ` set st)" "fst cur \<in> insert 18 (fst ` set st)" using c by simp_all
    moreover from 2 have "0 \<le> fst n" "fst n \<le> fst cur" by simp_all
    ultimately show ?thesis unfolding columnSpan_def by blast
  next
    case 3
    have "fst cur \<in> insert 0 (fst ` set st)" "18 \<in> insert 18 (fst ` set st)" using c by simp_all
    moreover from 3 have "fst cur \<le> fst n" "fst n \<le> 18" by simp_all
    ultimately show ?thesis unfolding columnSpan_def by blast
  qed
qed

lemma scanNeighbors_stack:
  "scanNeighbors g c vis ns (lib, st) = Inr (lib', st') \<Longrightarrow>
     set st' \<subseteq> set st \<union> {n \<in> set ns. 0 \<le> snd n \<and> snd n < int (length g)}"
proof (induction ns arbitrary: lib st)
  case Nil
  then show ?case by auto
next
  case (Cons n ns)
  show ?case
  proof (cases "cell g (fst n) (snd n)")
    case (Inl e)
    with Cons.prems show ?thesis by simp
  next
    case (Inr stone)
    then have row: "0 \<le> snd n \<and> snd n < int (length g)"
      by (auto simp: cell_def split: option.splits dest: index_Some_range)
    consider (a) "stone = Some EMPTY" | (b) "stone \<noteq> Some EMPTY" "stone = c \<and> n \<notin> vis"
      | (c) "stone \<noteq> Some EMPTY" "\<not> (stone = c \<and> n \<notin> vis)" by blast
    then show ?thesis
    proof cases
      case a
      with Cons.prems Inr have "scanNeighbors g c vis ns (True, st) = Inr (lib', st')" by simp
      from Cons.IH [OF this] show ?thesis by auto
    next
      case b
      with Cons.prems Inr have "scanNeighbors g c vis ns (lib, n # st) = Inr (lib', st')" by simp
      from Cons.IH [OF this] row show ?thesis by auto
    next
      case c
      with Cons.prems Inr have "scanNeighbors g c vis ns (lib, st) = Inr (lib', st')" by auto
      from Cons.IH [OF this] show ?thesis by auto
    qed
  qed
qed

lemma loop_measure_skip:
  "card ((floodRegion g st \<union> set st) - vis) \<le> card ((floodRegion g (cur # st) \<union> set (cur # st)) - vis)"
proof (rule card_mono)
  show "finite ((floodRegion g (cur # st) \<union> set (cur # st)) - vis)"
    by (simp add: finite_floodRegion)
  have "columnSpan st \<subseteq> columnSpan (cur # st)"
    by (rule columnSpan_hull) (auto intro: columnSpan_self)
  then show "(floodRegion g st \<union> set st) - vis \<subseteq> (floodRegion g (cur # st) \<union> set (cur # st)) - vis"
    by (auto simp: floodRegion_def)
qed

lemma loop_measure_visit:
  assumes "cur \<notin> vis"
    and "scanNeighbors g c (insert cur vis) (getNeighbors (fst cur) (snd cur) BOARD_SIZE) (lib, st)
           = Inr (lib', st')"
  shows "card ((floodRegion g st' \<union> set st') - insert cur vis)
           < card ((floodRegion g (cur # st) \<union> set (cur # st)) - vis)"
proof -
  let ?ns = "getNeighbors (fst cur) (snd cur) BOARD_SIZE"
  let ?old = "(floodRegion g (cur # st) \<union> set (cur # st)) - vis"
  from scanNeighbors_stack [OF assms(2)]
  have st': "set st' \<subseteq> set st \<union> {n \<in> set ?ns. 0 \<le> snd n \<and> snd n < int (length g)}" .
  have pushed: "n \<in> floodRegion g (cur # st)"
    if "n \<in> set ?ns" "0 \<le> snd n \<and> snd n < int (length g)" for n
  proof -
    have "fst n \<in> columnSpan (cur # st)" by (rule neighbor_column [OF that(1)]) simp
    with that(2) show ?thesis by (cases n) (simp add: floodRegion_def)
  qed
  have cols: "fst ` set st' \<subseteq> columnSpan (cur # st)"
  proof
    fix x assume "x \<in> fst ` set st'"
    then obtain p where p: "p \<in> set st'" "x = fst p" by blast
    with st' consider "p \<in> set st" | "p \<in> set ?ns" "0 \<le> snd p \<and> snd p < int (length g)" by blast
    then show "x \<in> columnSpan (cur # st)"
    proof cases
      case 1
      then have "p \<in> set (cur # st)" by simp
      with p(2) show ?thesis by (metis columnSpan_self)
    next
      case 2
      have "fst p \<in> columnSpan (cur # st)" by (rule neighbor_column [OF 2(1)]) simp
      with p(2) show ?thesis by simp
    qed
  qed
  have region: "floodRegion g st' \<subseteq> floodRegion g (cur # st)"
    using columnSpan_hull [OF cols] by (auto simp: floodRegion_def)
  have sub: "(floodRegion g st' \<union> set st') - insert cur vis \<subseteq> ?old - {cur}"
    using region st' pushed by auto
  have fin: "finite ?old" by (simp add: finite_floodRegion)
  from assms(1) have "cur \<in> ?old" by simp
  with fin have "card (?old - {cur}) < card ?old"
    by (meson card_Diff1_less)
  moreover from fin have "card ((floodRegion g st' \<union> set st') - insert cur vis) \<le> card (?old - {cur})"
    by (intro card_mono [OF _ sub]) simp
  ultimately show ?thesis by linarith
qed

function checkLiberties_loop ::
  "Grid \<Rightarrow> StoneColor option \<Rightarrow> Coordinate set \<Rightarrow> Coordinate list \<Rightarrow> Coordinate list \<Rightarrow> bool
     \<Rightarrow> error + bool \<times> Coordinate list" where
  "checkLiberties_loop g c vis [] grp lib = Inr (lib, grp)"
| "checkLiberties_loop g c vis (cur # st) grp lib =
     (if cur \<in> vis then checkLiberties_loop g c vis st grp lib
      else case scanNeighbors g c (insert cur vis)
                  (getNeighbors (fst cur) (snd cur) BOARD_SIZE) (lib, st) of
             Inl e \<Rightarrow> Inl e
           | Inr (lib', st') \<Rightarrow> checkLiberties_loop g c (insert cur vis) st' (grp @ [cur]) lib')"
  by pat_completeness auto

termination
  apply (relation "(\<lambda>(g, c, vis, st, grp, lib). card ((floodRegion g st \<union> set st) - vis)) <*mlex*>
                   measure (\<lambda>(g, c, vis, st, grp, lib). length st)")
    apply (simp add: wf_mlex)
   apply (rule mlex_leq)
    apply (simp add: loop_measure_skip del: set_simps)
   apply simp
  apply (rule mlex_less)
  apply (clarsimp simp del: set_simps)
  apply (erule loop_measure_visit)
  apply simp
  done

definition checkLiberties ::
  "Grid \<Rightarrow> int \<Rightarrow> int \<Rightarrow> StoneColor option \<Rightarrow> error + bool \<times> Coordinate list" where
  "checkLiberties g x y c = checkLiberties_loop g c {} [(x, y)] [] False"

section \<open>Move engine\<close>

record Captures =
  B :: nat
  W :: nat

record BoardState =
  grid :: Grid
  captures :: Captures
  lastMove :: "Coordinate option"
  koPoint :: "Coordinate option"

record MoveResult =
  newState :: BoardState
  valid :: bool
  message :: "string option"

text \<open>
  The board of the third-party library \<open>@sabaki/go-board\<close> is not part of the repository.
  \<open>playMove\<close> receives what \<open>createBoardForMove\<close> returned for the current grid: \<open>None\<close>
  when there is no board or it has no \<open>makeMove\<close>, otherwise the behaviour of the \<open>try\<close>
  block's library calls as a function of the capture counts handed to \<open>setCaptures\<close>, the
  sign and the vertex.  The library either throws (with or without a message) or returns a
  next board, which may lack a \<open>signMap\<close> or a \<open>getCaptures\<close> method.
\<close>

record NextBoard =
  signMap :: "int list list option"
  getCaptures :: "(int \<Rightarrow> nat) option"

datatype MakeMoveOutcome = Throws "string option" | Returns "NextBoard option"

type_synonym SabakiBoard = "nat \<Rightarrow> nat \<Rightarrow> int \<Rightarrow> Coordinate \<Rightarrow> MakeMoveOutcome"

definition toSign :: "StoneColor \<Rightarrow> int" where
  "toSign stone = (if stone = BLACK then 1 else if stone = WHITE then - 1 else 0)"

definition fromSign :: "int \<Rightarrow> StoneColor" where
  "fromSign v = (if v = 1 then BLACK else if v = - 1 then WHITE else EMPTY)"

definition reject :: "BoardState \<Rightarrow> string \<Rightarrow> MoveResult" where
  "reject st msg = \<lparr>newState = st, valid = False, message = Some msg\<rparr>"

text \<open>
  The \<open>message\<close> of the \<open>TypeError\<close> thrown when column \<open>col\<close> of a missing row is read, in
  the wording of the V8 engine: \<open>Cannot read properties of undefined (reading 'col')\<close>.
\<close>

definition typeErrorMessage :: "int \<Rightarrow> string" where
  "typeErrorMessage col =
     ''Cannot read properties of undefined (reading '' @ [CHR 0x27] @ numberToString col @
     [CHR 0x27] @ '')''"

text \<open>All positions of a grid in the order of the two nested \<open>for\<close> loops (rows, then columns).\<close>

definition positions :: "Grid \<Rightarrow> Coordinate list" where
  "positions g =
     concat (map (\<lambda>row. map (\<lambda>col. (int col, int row)) [0 ..< length (g ! row)]) [0 ..< length g])"

text \<open>
  The delegated branch finds the captured stones by comparing the grids: a point that held
  a stone and is \<open>EMPTY\<close> in the new grid.  \<open>newGrid[row][col]\<close> is read only when the
  first conjunct holds, and throws when the new grid has no such row.  The throw happens
  inside the \<open>try\<close> block, so \<open>scanCaptured\<close> returns the message that the \<open>catch\<close> clause hands
  on.
\<close>

fun scanCaptured :: "Grid \<Rightarrow> Grid \<Rightarrow> Coordinate list \<Rightarrow> Coordinate list \<Rightarrow> string + Coordinate list" where
  "scanCaptured old new [] acc = Inr acc"
| "scanCaptured old new (p # ps) acc =
     (if cell old (fst p) (snd p) \<noteq> Inr (Some EMPTY)
      then (case cell new (fst p) (snd p) of
              Inl e \<Rightarrow> Inl (typeErrorMessage (fst p))
            | Inr v \<Rightarrow> scanCaptured old new ps (if v = Some EMPTY then acc @ [p] else acc))
      else scanCaptured old new ps acc)"

definition playMoveSabaki :: "BoardState \<Rightarrow> int \<Rightarrow> int \<Rightarrow> NextBoard \<Rightarrow> int list list \<Rightarrow> MoveResult" where
  "playMoveSabaki st x y nextBoard sm =
     (let newGrid = map (map fromSign) sm in
      case scanCaptured (grid st) newGrid (positions (grid st)) [] of
        Inl msg \<Rightarrow> reject st msg
      | Inr capturedStones \<Rightarrow>
          \<lparr>newState =
             \<lparr>grid = newGrid,
              captures =
                \<lparr>B = (case getCaptures nextBoard of Some f \<Rightarrow> f 1 | None \<Rightarrow> B (captures st)),
                 W = (case getCaptures nextBoard of Some f \<Rightarrow> f (- 1) | None \<Rightarrow> W (captures st))\<rparr>,
              lastMove = Some (x, y),
              koPoint = (if length capturedStones = 1 then Some (hd capturedStones) else None)\<rparr>,
           valid = True, message = None\<rparr>)"

text \<open>
  The local engine.  \<open>setCell\<close> is the assignment \<open>newGrid[y][x] = v\<close>.  The source
  assigns only to cells from which it has just read a stone colour, so the assignment is
  always inside the grid; outside it the model leaves the grid as it is.
\<close>

definition setCell :: "Grid \<Rightarrow> int \<Rightarrow> int \<Rightarrow> StoneColor \<Rightarrow> Grid" where
  "setCell g x y v =
     (if 0 \<le> y \<and> y < int (length g) \<and> 0 \<le> x \<and> x < int (length (g ! nat y))
      then g[nat y := (g ! nat y)[nat x := v]] else g)"

fun captureNeighbors :: "Grid \<Rightarrow> StoneColor \<Rightarrow> Coordinate list \<Rightarrow> Coordinate list \<Rightarrow> error + Coordinate list" where
  "captureNeighbors g opponent [] capturedStones = Inr capturedStones"
| "captureNeighbors g opponent (n # ns) capturedStones =
     (case cell g (fst n) (snd n) of
        Inl e \<Rightarrow> Inl e
      | Inr s \<Rightarrow>
          if s = Some opponent
          then (case checkLiberties g (fst n) (snd n) (Some opponent) of
                  Inl e \<Rightarrow> Inl e
                | Inr (hasLiberties, grp) \<Rightarrow>
                    captureNeighbors g opponent ns
                      (if \<not> hasLiberties then capturedStones @ grp else capturedStones))
          else captureNeighbors g opponent ns capturedStones)"

definition removeStones :: "Grid \<Rightarrow> Coordinate list \<Rightarrow> Grid" where
  "removeStones g capturedStones = foldl (\<lambda>g s. setCell g (fst s) (snd s) EMPTY) g capturedStones"

definition addCaptures :: "Captures \<Rightarrow> StoneColor \<Rightarrow> nat \<Rightarrow> Captures" where
  "addCaptures caps color n =
     (if color = BLACK then caps\<lparr>B := B caps + n\<rparr> else caps\<lparr>W := W caps + n\<rparr>)"

definition finishMove ::
  "BoardState \<Rightarrow> int \<Rightarrow> int \<Rightarrow> StoneColor \<Rightarrow> Grid \<Rightarrow> Coordinate list \<Rightarrow> error + MoveResult" where
  "finishMove st x y color newGrid capturedStones =
     (case (if length capturedStones = 1
            then (case checkLiberties newGrid x y (Some color) of
                    Inl e \<Rightarrow> Inl e
                  | Inr (hasLiberties, grp) \<Rightarrow>
                      Inr (if length grp = 1 \<and> hasLiberties then Some (hd capturedStones) else None))
            else Inr None) of
        Inl e \<Rightarrow> Inl e
      | Inr newKoPoint \<Rightarrow>
          Inr \<lparr>newState =
                 \<lparr>grid = newGrid,
                  captures = addCaptures (captures st) color (length capturedStones),
                  lastMove = Some (x, y),
                  koPoint = newKoPoint\<rparr>,
               valid = True, message = None\<rparr>)"

definition playMoveLocal :: "BoardState \<Rightarrow> int \<Rightarrow> int \<Rightarrow> StoneColor \<Rightarrow> error + MoveResult" where
  "playMoveLocal st x y color =
     (let placed = setCell (grid st) x y color;
          opponent = (if color = BLACK then WHITE else BLACK)
      in case captureNeighbors placed opponent (getNeighbors x y BOARD_SIZE) [] of
           Inl e \<Rightarrow> Inl e
         | Inr capturedStones \<Rightarrow>
             let newGrid = removeStones placed capturedStones in
             if length capturedStones = 0
             then (case checkLiberties newGrid x y (Some color) of
                     Inl e \<Rightarrow> Inl e
                   | Inr (hasLiberties, grp) \<Rightarrow>
                       if \<not> hasLiberties then Inr (reject st ''Suicide move not allowed'')
                       else finishMove st x y color newGrid capturedStones)
             else finishMove st x y color newGrid capturedStones)"

definition playMove ::
  "SabakiBoard option \<Rightarrow> BoardState \<Rightarrow> int \<Rightarrow> int \<Rightarrow> StoneColor \<Rightarrow> error + MoveResult" where
  "playMove sabakiBoard st x y color =
     (case cell (grid st) x y of
        Inl e \<Rightarrow> Inl e
      | Inr s \<Rightarrow>
          if s \<noteq> Some EMPTY then Inr (reject st ''Point is occupied'')
          else if koPoint st = Some (x, y) then Inr (reject st ''Ko rule violation'')
          else (case sabakiBoard of
                  None \<Rightarrow> playMoveLocal st x y color
                | Some makeMove \<Rightarrow>
                    (case makeMove (B (captures st)) (W (captures st)) (toSign color) (x, y) of
                       Throws msg \<Rightarrow>
                         Inr (reject st (case msg of Some m \<Rightarrow> m | None \<Rightarrow> ''Invalid move''))
                     | Returns None \<Rightarrow> playMoveLocal st x y color
                     | Returns (Some nextBoard) \<Rightarrow>
                         (case signMap nextBoard of
                            None \<Rightarrow> playMoveLocal st x y color
                          | Some sm \<Rightarrow> Inr (playMoveSabaki st x y nextBoard sm)))))"

section \<open>ASCII dump of the board\<close>

text \<open>
  \<open>boardToAscii\<close> appends to one string.  \<open>coords[i]\<close> is \<open>undefined\<close> past the end of the
  sliced letters, which a template literal prints as the word \<open>undefined\<close>.  The rows
  \<open>grid[y]\<close> exist for \<open>y < size\<close>; a cell missing from a short row is neither \<open>BLACK\<close> nor
  \<open>WHITE\<close> and prints as a dot.
\<close>

definition newline :: char where
  "newline = CHR 0x0A"

definition colLabel :: "string \<Rightarrow> nat \<Rightarrow> string" where
  "colLabel coords i = (case index coords (int i) of Some c \<Rightarrow> [c] | None \<Rightarrow> ''undefined'') @ '' ''"

definition stoneGlyph :: "StoneColor option \<Rightarrow> string" where
  "stoneGlyph s = (if s = Some BLACK then ''X '' else if s = Some WHITE then ''O '' else ''. '')"

definition asciiRow :: "Grid \<Rightarrow> nat \<Rightarrow> string \<Rightarrow> nat \<Rightarrow> string" where
  "asciiRow g sz ascii y =
     (let rowNum = int sz - int y;
          ascii = ascii @ (if rowNum < 10 then '' '' else []) @ numberToString rowNum @ '' '';
          ascii = foldl (\<lambda>a x. a @ stoneGlyph (index (g ! y) (int x))) ascii [0 ..< sz]
      in ascii @ numberToString rowNum @ [newline])"

definition boardToAscii :: "Grid \<Rightarrow> string" where
  "boardToAscii g =
     (let sz = length g;
          ascii = ''   '';
          coords = take sz letters;
          ascii = foldl (\<lambda>a i. a @ colLabel coords i) ascii [0 ..< sz];
          ascii = ascii @ [newline];
          ascii = foldl (asciiRow g sz) ascii [0 ..< sz];
          ascii = ascii @ ''   ''
      in foldl (\<lambda>a i. a @ colLabel coords i) ascii [0 ..< sz])"

section \<open>Influence estimate\<close>

text \<open>
  The heuristic's arithmetic is in IEEE doubles in the source and in the reals here.  Both
  loops run over \<open>size \<times> size\<close> points with \<open>size\<close> the number of rows.
\<close>

definition DECAY :: real where
  "DECAY = 2"

definition squarePositions :: "nat \<Rightarrow> Coordinate list" where
  "squarePositions sz = concat (map (\<lambda>y. map (\<lambda>x. (int x, int y)) [0 ..< sz]) [0 ..< sz])"

definition influenceStones :: "Grid \<Rightarrow> (Coordinate \<times> real) list" where
  "influenceStones g =
     concat (map (\<lambda>p. (if index (g ! nat (snd p)) (fst p) = Some BLACK then [(p, 1)] else []) @
                       (if index (g ! nat (snd p)) (fst p) = Some WHITE then [(p, - 1)] else []))
               (squarePositions (length g)))"

definition influenceAt :: "(Coordinate \<times> real) list \<Rightarrow> Coordinate \<Rightarrow> real" where
  "influenceAt sts p =
     foldl (\<lambda>val (s, color).
              val + color * exp (- sqrt (real_of_int ((fst p - fst s)\<^sup>2 + (snd p - snd s)\<^sup>2)) / DECAY))
       0 sts"

definition calculateInfluenceHeuristic :: "Grid \<Rightarrow> nat \<times> nat" where
  "calculateInfluenceHeuristic g =
     (let sts = influenceStones g in
      foldl (\<lambda>(blackArea, whiteArea) p.
               let val = influenceAt sts p in
               (if val > 0.5 then blackArea + 1 else blackArea,
                if val < - 0.5 then whiteArea + 1 else whiteArea))
        (0, 0) (squarePositions (length g)))"

text \<open>
  \<open>calculateInfluence\<close> prefers the summary of the third-party influence library, which is
  not part of the repository: \<open>summary\<close> is what \<open>getInfluenceSummary\<close> returned, \<open>None\<close> for
  \<open>null\<close>.
\<close>

definition calculateInfluence :: "(nat \<times> nat) option \<Rightarrow> Grid \<Rightarrow> nat \<times> nat" where
  "calculateInfluence summary g = (case summary of Some r \<Rightarrow> r | None \<Rightarrow> calculateInfluenceHeuristic g)"

section \<open>Shape matcher\<close>

text \<open>
  The fields of the source's \<open>ShapePattern\<close> are \<open>name\<close>, \<open>size\<close>, \<open>grid\<close> and \<open>type\<close>; they
  carry the prefix \<open>pat\<close> here because \<open>size\<close> and \<open>grid\<close> are taken.
\<close>

record ShapePattern =
  patName :: string
  patSize :: nat
  patGrid :: "int list list"
  patType :: string

definition PATTERNS :: "ShapePattern list" where
  "PATTERNS =
     [\<lparr>patName = ''Empty Triangle'', patSize = 2, patGrid = [[1, 1], [1, 0]], patType = ''BAD''\<rparr>,
      \<lparr>patName = ''Ponnuki'', patSize = 3, patGrid = [[0, 1, 0], [1, 0, 1], [0, 1, 0]],
       patType = ''GOOD''\<rparr>,
      \<lparr>patName = ''Hane at Head of Two'', patSize = 3,
       patGrid = [[0, 1, 0], [1, - 1, 0], [1, - 1, 0]], patType = ''GOOD''\<rparr>]"

definition rotateGrid :: "int list list \<Rightarrow> int list list" where
  "rotateGrid g =
     (let N = length g in
      foldl (\<lambda>res r. foldl (\<lambda>res c. res[c := (res ! c)[N - 1 - r := g ! r ! c]]) res [0 ..< N])
        (replicate N (replicate N 0)) [0 ..< N])"

definition assignColors :: "ShapePattern \<Rightarrow> int \<Rightarrow> int list list" where
  "assignColors pat colorSign =
     map (map (\<lambda>v. if v = 1 then colorSign else if v = - 1 then - colorSign else v)) (patGrid pat)"

text \<open>
  One window: the two inner loops leave \<open>match\<close> true when no cell of the template other than
  a wildcard \<open>2\<close> differs from the board.  The board row exists for every window the outer
  loops visit; a cell missing from a short row reads \<open>undefined\<close> and differs from every
  template value.
\<close>

definition matchesAt :: "int list list \<Rightarrow> int list list \<Rightarrow> nat \<Rightarrow> nat \<Rightarrow> nat \<Rightarrow> bool" where
  "matchesAt numGrid pGrid psz x y =
     list_all (\<lambda>py. list_all (\<lambda>px.
         \<not> (pGrid ! py ! px \<noteq> 2 \<and> index (numGrid ! (y + py)) (int (x + px)) \<noteq> Some (pGrid ! py ! px)))
       [0 ..< psz]) [0 ..< psz]"

definition shapeFinding :: "ShapePattern \<Rightarrow> int \<Rightarrow> int \<Rightarrow> int \<Rightarrow> string" where
  "shapeFinding pat colorSign x y =
     patType pat @ '': '' @ (if colorSign = 1 then ''Black'' else ''White'') @ '' '' @ patName pat @
     '' at '' @ toGtpCoordinate x y"

text \<open>\<open>found\<close> is a \<open>Set\<close> of strings, which keeps insertion order: a list without repetition.\<close>

definition addFound :: "string \<Rightarrow> string list \<Rightarrow> string list" where
  "addFound f found = (if f \<in> set found then found else found @ [f])"

definition windowCount :: "nat \<Rightarrow> ShapePattern \<Rightarrow> nat" where
  \<comment> \<open>the number of values of the loop variable in \<open>for (y = 0; y <= size - pat.size; y++)\<close>\<close>
  "windowCount sz pat = nat (int sz - int (patSize pat) + 1)"

text \<open>
  The loops of \<open>findShapesHeuristic\<close>, innermost first: over the columns \<open>x\<close> of one row of
  windows, over the rows \<open>y\<close>, over the four rotations (the template is rotated before each
  scan), over the two colour assignments and over the patterns.
\<close>

fun scanColumns ::
  "int list list \<Rightarrow> ShapePattern \<Rightarrow> int \<Rightarrow> int list list \<Rightarrow> nat \<Rightarrow> nat list \<Rightarrow> string list
     \<Rightarrow> string list" where
  "scanColumns numGrid pat colorSign pGrid y [] found = found"
| "scanColumns numGrid pat colorSign pGrid y (x # xs) found =
     scanColumns numGrid pat colorSign pGrid y xs
       (if matchesAt numGrid pGrid (patSize pat) x y
        then addFound (shapeFinding pat colorSign (int x) (int y)) found else found)"

fun scanRows ::
  "int list list \<Rightarrow> nat \<Rightarrow> ShapePattern \<Rightarrow> int \<Rightarrow> int list list \<Rightarrow> nat list \<Rightarrow> string list
     \<Rightarrow> string list" where
  "scanRows numGrid sz pat colorSign pGrid [] found = found"
| "scanRows numGrid sz pat colorSign pGrid (y # ys) found =
     scanRows numGrid sz pat colorSign pGrid ys
       (scanColumns numGrid pat colorSign pGrid y [0 ..< windowCount sz pat] found)"

fun scanRotations ::
  "int list list \<Rightarrow> nat \<Rightarrow> ShapePattern \<Rightarrow> int \<Rightarrow> int list list \<Rightarrow> nat list \<Rightarrow> string list
     \<Rightarrow> string list" where
  "scanRotations numGrid sz pat colorSign pGrid [] found = found"
| "scanRotations numGrid sz pat colorSign pGrid (r # rs) found =
     scanRotations numGrid sz pat colorSign (rotateGrid pGrid) rs
       (scanRows numGrid sz pat colorSign (rotateGrid pGrid) [0 ..< windowCount sz pat] found)"

fun scanColors ::
  "int list list \<Rightarrow> nat \<Rightarrow> ShapePattern \<Rightarrow> int list \<Rightarrow> string list \<Rightarrow> string list" where
  "scanColors numGrid sz pat [] found = found"
| "scanColors numGrid sz pat (colorSign # colors) found =
     scanColors numGrid sz pat colors
       (scanRotations numGrid sz pat colorSign (assignColors pat colorSign) [0 ..< 4] found)"

fun scanPatterns ::
  "int list list \<Rightarrow> nat \<Rightarrow> ShapePattern list \<Rightarrow> string list \<Rightarrow> string list" where
  "scanPatterns numGrid sz [] found = found"
| "scanPatterns numGrid sz (pat # pats) found =
     scanPatterns numGrid sz pats (scanColors numGrid sz pat [1, - 1] found)"

definition findShapesHeuristic :: "Grid \<Rightarrow> string list" where
  "findShapesHeuristic g = scanPatterns (map (map toSign) g) (length g) PATTERNS []"

section \<open>Safety heuristic\<close>

text \<open>
  \<open>libs\<close> is a \<open>Set\<close> of keys, modelled as a list of coordinates without repetition, so that
  \<open>libs.size\<close> is its length; \<open>visited\<close> is a set of coordinates as in \<open>checkLiberties\<close>.
  \<open>libsOfNeighbors\<close> and \<open>libsOfGroup\<close> are the two nested \<open>forEach\<close> loops, \<open>safetyScan\<close> the
  scan over all points, rows first.  The row \<open>grid[y]\<close> exists for every scanned point; the
  colour read from it is \<open>undefined\<close> (\<open>None\<close>) when the row is shorter than the number of rows,
  and is then handed to \<open>checkLiberties\<close> like any colour other than \<open>EMPTY\<close>.
\<close>

definition addLib :: "Coordinate \<Rightarrow> Coordinate list \<Rightarrow> Coordinate list" where
  "addLib n libs = (if n \<in> set libs then libs else libs @ [n])"

fun libsOfNeighbors :: "Grid \<Rightarrow> Coordinate list \<Rightarrow> Coordinate list \<Rightarrow> error + Coordinate list" where
  "libsOfNeighbors g [] libs = Inr libs"
| "libsOfNeighbors g (n # ns) libs =
     (case cell g (fst n) (snd n) of
        Inl e \<Rightarrow> Inl e
      | Inr s \<Rightarrow> libsOfNeighbors g ns (if s = Some EMPTY then addLib n libs else libs))"

fun libsOfGroup :: "Grid \<Rightarrow> Coordinate list \<Rightarrow> Coordinate list \<Rightarrow> error + Coordinate list" where
  "libsOfGroup g [] libs = Inr libs"
| "libsOfGroup g (s # ss) libs =
     (case libsOfNeighbors g (getNeighbors (fst s) (snd s) BOARD_SIZE) libs of
        Inl e \<Rightarrow> Inl e
      | Inr libs' \<Rightarrow> libsOfGroup g ss libs')"

definition dangerFinding :: "StoneColor option \<Rightarrow> Coordinate \<Rightarrow> nat \<Rightarrow> string" where
  "dangerFinding color anchor n =
     ''DANGER: '' @ (if color = Some BLACK then ''Black'' else ''White'') @ '' group at '' @
     toGtpCoordinate (fst anchor) (snd anchor) @ '' has only '' @ numberToString (int n) @
     '' liberties.''"

fun safetyScan :: "Grid \<Rightarrow> Coordinate list \<Rightarrow> Coordinate set \<Rightarrow> string list \<Rightarrow> error + string list" where
  "safetyScan g [] visited report = Inr report"
| "safetyScan g (p # ps) visited report =
     (if index (g ! nat (snd p)) (fst p) = Some EMPTY then safetyScan g ps visited report
      else if p \<in> visited then safetyScan g ps visited report
      else (case checkLiberties g (fst p) (snd p) (index (g ! nat (snd p)) (fst p)) of
              Inl e \<Rightarrow> Inl e
            | Inr (hasLiberties, grp) \<Rightarrow>
                (case libsOfGroup g grp [] of
                   Inl e \<Rightarrow> Inl e
                 | Inr libs \<Rightarrow>
                     safetyScan g ps (visited \<union> set grp)
                       (if length libs \<le> 2
                        then report @
                          [dangerFinding (index (g ! nat (snd p)) (fst p)) (hd grp) (length libs)]
                        else report))))"

definition analyzeSafetyHeuristic :: "Grid \<Rightarrow> error + string list" where
  "analyzeSafetyHeuristic g = safetyScan g (squarePositions (length g)) {} []"

section \<open>The textual convention as the specification words it\<close>

text \<open>
  The specification numbers the rows of a dump from the top, from the board size down to 1.
  \<open>asciiLine rowNum row sz\<close> is the line of one grid row that carries the row number
  \<open>rowNum\<close> in front of and behind the stones, and \<open>asciiHeader\<close> the line of column labels.
\<close>

definition asciiHeader :: "nat \<Rightarrow> string" where
  "asciiHeader n = ''   '' @ concat (map (colLabel (take n letters)) [0 ..< n])"

definition asciiLine :: "nat \<Rightarrow> StoneColor list \<Rightarrow> nat \<Rightarrow> string" where
  "asciiLine rowNum row sz =
     (if rowNum < 10 then '' '' else []) @ decimal rowNum @ '' '' @
     concat (map (\<lambda>x. stoneGlyph (index row (int x))) [0 ..< sz]) @
     decimal rowNum @ [newline]"

text \<open>
  A recorded match: the scan of \<open>findShapesHeuristic\<close> reaches the window with top-left corner
  \<open>(x, y)\<close> with pattern \<open>pat\<close>, colour assignment \<open>colorSign\<close> and the template rotated \<open>k\<close>
  times, and the window matches.
\<close>

definition recordsMatch :: "Grid \<Rightarrow> ShapePattern \<Rightarrow> int \<Rightarrow> nat \<Rightarrow> nat \<Rightarrow> nat \<Rightarrow> bool" where
  "recordsMatch g pat colorSign k x y \<longleftrightarrow>
     pat \<in> set PATTERNS \<and> colorSign \<in> {1, - 1} \<and> k \<in> {1 .. 4} \<and>
     x < windowCount (length g) pat \<and> y < windowCount (length g) pat \<and>
     matchesAt (map (map toSign) g) ((rotateGrid ^^ k) (assignColors pat colorSign)) (patSize pat) x y"

text \<open>
  The first point of a template with a non-empty value, as \<open>toSignedVertices\<close> of the adapter
  module finds it: rows first, skipping wildcards \<open>2\<close> and empty cells \<open>0\<close>.  The result is
  the offset \<open>(x, y)\<close> inside the template.
\<close>

definition patternAnchor :: "int list list \<Rightarrow> (nat \<times> nat) option" where
  "patternAnchor pg =
     (case filter (\<lambda>(x, y). pg ! y ! x \<noteq> 2 \<and> pg ! y ! x \<noteq> 0)
             (concat (map (\<lambda>y. map (\<lambda>x. (x, y)) [0 ..< length (pg ! y)]) [0 ..< length pg])) of
        [] \<Rightarrow> None
      | a # _ \<Rightarrow> Some a)"

section \<open>Groups and liberties as the specification words them\<close>

text \<open>
  The standard board has 19 rows of 19 cells.  Two points are adjacent when they differ by
  one step in one direction.  \<open>stoneAt\<close> is the content of a point, \<open>None\<close> off the grid.  A
  group is the set of points reached from a stone through adjacent stones of its colour; its
  liberties are the empty points adjacent to one of its stones.  None of these definitions
  refers to \<open>getNeighbors\<close> or to \<open>checkLiberties\<close>.
\<close>

definition standardBoard :: "Grid \<Rightarrow> bool" where
  "standardBoard g \<longleftrightarrow> length g = 19 \<and> list_all (\<lambda>row. length row = 19) g"

definition adjacent :: "Coordinate \<Rightarrow> Coordinate \<Rightarrow> bool" where
  "adjacent p q \<longleftrightarrow> \<bar>fst p - fst q\<bar> + \<bar>snd p - snd q\<bar> = 1"

definition stoneAt :: "Grid \<Rightarrow> Coordinate \<Rightarrow> StoneColor option" where
  "stoneAt g p = (case cell g (fst p) (snd p) of Inl e \<Rightarrow> None | Inr s \<Rightarrow> s)"

definition sameColorLink :: "Grid \<Rightarrow> StoneColor \<Rightarrow> (Coordinate \<times> Coordinate) set" where
  "sameColorLink g c = {(p, q). stoneAt g p = Some c \<and> stoneAt g q = Some c \<and> adjacent p q}"

definition groupOf :: "Grid \<Rightarrow> StoneColor \<Rightarrow> Coordinate \<Rightarrow> Coordinate set" where
  "groupOf g c p = {q. (p, q) \<in> (sameColorLink g c)\<^sup>*}"

definition libertiesOf :: "Grid \<Rightarrow> Coordinate set \<Rightarrow> Coordinate set" where
  "libertiesOf g G = {q. stoneAt g q = Some EMPTY \<and> (\<exists>p \<in> G. adjacent p q)}"

definition onBoard19 :: "Coordinate \<Rightarrow> bool" where
  "onBoard19 p \<longleftrightarrow> 0 \<le> fst p \<and> fst p < 19 \<and> 0 \<le> snd p \<and> snd p < 19"

text \<open>
  Suicide, in the words of the specification: with the stone placed, no adjacent opposing
  group is left without liberties (the move captures nothing) and the placed stone's own
  group has no liberty.
\<close>

definition opponentOf :: "StoneColor \<Rightarrow> StoneColor" where
  "opponentOf color = (if color = BLACK then WHITE else BLACK)"

definition capturesNothing :: "Grid \<Rightarrow> Coordinate \<Rightarrow> StoneColor \<Rightarrow> bool" where
  "capturesNothing placed p color \<longleftrightarrow>
     (\<forall>n. adjacent p n \<and> stoneAt placed n = Some (opponentOf color) \<longrightarrow>
          libertiesOf placed (groupOf placed (opponentOf color) n) \<noteq> {})"

definition isSuicide :: "Grid \<Rightarrow> Coordinate \<Rightarrow> StoneColor \<Rightarrow> bool" where
  "isSuicide g p color \<longleftrightarrow>
     capturesNothing (setCell g (fst p) (snd p) color) p color \<and>
     libertiesOf (setCell g (fst p) (snd p) color)
       (groupOf (setCell g (fst p) (snd p) color) color p) = {}"

text \<open>The groups that \<open>checkLiberties\<close> returns over all seeds that hold a stone.\<close>

definition resolvedGroups :: "Grid \<Rightarrow> Coordinate set set" where
  "resolvedGroups g =
     {set grp | s c lib grp. stoneAt g s = Some c \<and> c \<noteq> EMPTY \<and>
        checkLiberties g (fst s) (snd s) (Some c) = Inr (lib, grp)}"

section \<open>Positions used in the examples\<close>

definition withStones :: "Grid \<Rightarrow> StoneColor \<Rightarrow> Coordinate list \<Rightarrow> Grid" where
  "withStones g c ps = foldl (\<lambda>g p. setCell g (fst p) (snd p) c) g ps"

definition stateOf :: "Grid \<Rightarrow> BoardState" where
  "stateOf g = \<lparr>grid = g, captures = \<lparr>B = 0, W = 0\<rparr>, lastMove = None, koPoint = None\<rparr>"

text \<open>The stones that a move removed: points that held a stone before and are empty after.\<close>

definition removedStones :: "Grid \<Rightarrow> Grid \<Rightarrow> Coordinate list" where
  "removedStones old new =
     filter (\<lambda>p. cell old (fst p) (snd p) \<noteq> Inr (Some EMPTY) \<and> cell new (fst p) (snd p) = Inr (Some EMPTY))
       (positions old)"

text \<open>
  A White group of three stones bent around the corner point \<open>(0, 0)\<close> of a 19 by 19 board,
  whose only liberty is that corner: it touches the corner at \<open>(1, 0)\<close> and at \<open>(0, 1)\<close>.
\<close>

definition cornerBoard :: Grid where
  "cornerBoard =
     withStones (withStones (createEmptyGrid 19) WHITE [(1, 0), (1, 1), (0, 1)])
       BLACK [(2, 0), (2, 1), (1, 2), (0, 2)]"

text \<open>
  Two Black stones side by side in the top row of a 20 by 20 board, across the column
  where a board of side 19 ends, and a lone Black stone in the bottom-left corner of a 9 by 9
  board.
\<close>

definition wideBoard :: Grid where
  "wideBoard = withStones (createEmptyGrid 20) BLACK [(18, 0), (19, 0)]"

definition smallBoard :: Grid where
  "smallBoard = withStones (createEmptyGrid 9) BLACK [(0, 8)]"

text \<open>
  Three positions for a Black move next to two White stones: at \<open>(18, 0)\<close> of a 20 by 20
  board, where the point \<open>(19, 0)\<close> stays empty; in the corner \<open>(0, 8)\<close> of a 9 by 9 board; and
  in the corner \<open>(0, 0)\<close> of the 19 by 19 board.
\<close>

definition wideSuicideBoard :: Grid where
  "wideSuicideBoard = withStones (createEmptyGrid 20) WHITE [(17, 0), (18, 1)]"

definition smallSuicideBoard :: Grid where
  "smallSuicideBoard = withStones (createEmptyGrid 9) WHITE [(0, 7), (1, 8)]"

definition cornerSuicideBoard :: Grid where
  "cornerSuicideBoard = withStones (createEmptyGrid 19) WHITE [(1, 0), (0, 1)]"

text \<open>Four Black stones around the empty point \<open>(1, 1)\<close> of a 19 by 19 board: a ponnuki.\<close>

definition ponnukiBoard :: Grid where
  "ponnukiBoard = withStones (createEmptyGrid 19) BLACK [(1, 0), (0, 1), (2, 1), (1, 2)]"

text \<open>
  A White stone at \<open>(1, 1)\<close> in atari; Black captures it at \<open>(1, 2)\<close> with a stone that
  joins the Black stone at \<open>(1, 3)\<close>.  \<open>connectedCaptureAfter\<close> is the position after the
  capture and \<open>connectedCaptureSabaki\<close> an external board that answers with it.
\<close>

definition connectedCaptureBoard :: Grid where
  "connectedCaptureBoard =
     withStones (withStones (createEmptyGrid 19) WHITE [(1, 1)])
       BLACK [(0, 1), (1, 0), (2, 1), (1, 3)]"

definition connectedCaptureAfter :: Grid where
  "connectedCaptureAfter = withStones (createEmptyGrid 19) BLACK [(0, 1), (1, 0), (2, 1), (1, 3), (1, 2)]"

definition connectedCaptureSabaki :: SabakiBoard where
  "connectedCaptureSabaki capB capW sign vertex =
     Returns (Some \<lparr>signMap = Some (map (map toSign) connectedCaptureAfter),
                     getCaptures = Some (\<lambda>s. if s = 1 then capB + 1 else capW)\<rparr>)"

section \<open>Properties of the textual coordinates\<close>

lemma length_letters: "length letters = 19"
  by (simp add: letters_def)

lemma letters_upper: "c \<in> set letters \<Longrightarrow> c \<noteq> CHR ''p''"
  by (auto simp: letters_def)

lemma letters_no_I: "CHR ''I'' \<notin> set letters"
  by (simp add: letters_def)

text \<open>
  C10.  Outside the range \<open>0 \<le> x < 19\<close>, \<open>0 \<le> y < 19\<close> the function \<open>toGtpCoordinate\<close>
  returns the string \<open>pass\<close> (it does not fail); inside the range it returns a column letter
  followed by the decimal row number \<open>19 - y\<close>, which lies between 1 and 19, and this string
  is never \<open>pass\<close>.
\<close>

theorem toGtpCoordinate_pass_iff:
  "(x < 0 \<or> x \<ge> 19 \<or> y < 0 \<or> y \<ge> 19 \<longrightarrow> toGtpCoordinate x y = ''pass'') \<and>
   (0 \<le> x \<and> x < 19 \<and> 0 \<le> y \<and> y < 19 \<longrightarrow>
      toGtpCoordinate x y = (letters ! nat x) # decimal (nat (19 - y)) \<and>
      letters ! nat x \<in> set letters \<and> 1 \<le> nat (19 - y) \<and> nat (19 - y) \<le> 19 \<and>
      toGtpCoordinate x y \<noteq> ''pass'')"
proof (intro conjI impI)
  assume "x < 0 \<or> x \<ge> 19 \<or> y < 0 \<or> y \<ge> 19"
  then show "toGtpCoordinate x y = ''pass''"
    by (auto simp: toGtpCoordinate_def)
next
  assume r: "0 \<le> x \<and> x < 19 \<and> 0 \<le> y \<and> y < 19"
  then show eq: "toGtpCoordinate x y = (letters ! nat x) # decimal (nat (19 - y))"
    by (simp add: toGtpCoordinate_def numberToString_def)
  from r have "nat x < length letters"
    unfolding length_letters by arith
  then show mem: "letters ! nat x \<in> set letters"
    by (rule nth_mem)
  from r show "1 \<le> nat (19 - y)" and "nat (19 - y) \<le> 19"
    by arith+
  from letters_upper [OF mem] eq show "toGtpCoordinate x y \<noteq> ''pass''"
    by auto
qed

theorem toGtpCoordinate_pass_iff_witness:
  "toGtpCoordinate (- 1) 0 = ''pass'' \<and> toGtpCoordinate 3 19 = ''pass'' \<and>
   toGtpCoordinate 3 15 = ''D4'' \<and> toGtpCoordinate 3 15 \<noteq> ''pass''"
  using toGtpCoordinate_pass_iff [of "- 1" 0] toGtpCoordinate_pass_iff [of 3 19]
    toGtpCoordinate_pass_iff [of 3 15]
  by (simp add: letters_def decimal.simps)

section \<open>The ASCII dump and the row numbers\<close>

lemma foldl_append_concat: "foldl (\<lambda>a x. a @ f x) a xs = a @ concat (map f xs)"
  by (induction xs arbitrary: a) simp_all

lemma asciiRow_line:
  "y < length g \<Longrightarrow> asciiRow g (length g) a y = a @ asciiLine (length g - y) (g ! y) (length g)"
  by (simp add: asciiRow_def asciiLine_def Let_def foldl_append_concat numberToString_def
      of_nat_diff [symmetric] del: of_nat_diff)

lemma foldl_asciiRow:
  "set ys \<subseteq> {..< length g} \<Longrightarrow>
     foldl (asciiRow g (length g)) a ys
       = a @ concat (map (\<lambda>y. asciiLine (length g - y) (g ! y) (length g)) ys)"
  by (induction ys arbitrary: a) (simp_all add: asciiRow_line)

lemma boardToAscii_closed:
  "boardToAscii g =
     asciiHeader (length g) @ [newline] @
     concat (map (\<lambda>y. asciiLine (length g - y) (g ! y) (length g)) [0 ..< length g]) @
     asciiHeader (length g)"
proof -
  have rows: "foldl (asciiRow g (length g)) a [0 ..< length g]
                = a @ concat (map (\<lambda>y. asciiLine (length g - y) (g ! y) (length g)) [0 ..< length g])"
    for a
    by (rule foldl_asciiRow) auto
  show ?thesis
    by (simp add: boardToAscii_def Let_def foldl_append_concat rows asciiHeader_def)
qed

lemma asciiHeader_letters:
  assumes "n \<le> 19"
  shows "asciiHeader n = ''   '' @ concat (map (\<lambda>i. [letters ! i, CHR '' '']) [0 ..< n])"
proof -
  have "colLabel (take n letters) i = [letters ! i, CHR '' '']" if "i < n" for i
    using that assms by (simp add: colLabel_def index_def length_letters)
  then have eq: "map (colLabel (take n letters)) [0 ..< n]
                   = map (\<lambda>i. [letters ! i, CHR '' '']) [0 ..< n]"
    by (intro map_cong) auto
  show ?thesis unfolding asciiHeader_def eq ..
qed

text \<open>
  C6, as the claim states it, fails for \<open>toGtpCoordinate\<close>: on a board of side 5 the top row is
  row 5 in the ASCII dump, and \<open>toGtpCoordinate\<close> calls its first point \<open>A19\<close>, not \<open>A5\<close>.
\<close>

theorem toGtpCoordinate_row_counterexample:
  "length (createEmptyGrid 5) = 5 \<and>
   take 29 (boardToAscii (createEmptyGrid 5)) = ''   A B C D E '' @ [newline] @ '' 5 . . . . . 5'' @ [newline] \<and>
   toGtpCoordinate 0 0 = ''A19'' \<and>
   toGtpCoordinate 0 0 \<noteq> (letters ! 0) # decimal (5 - 0)"
  by code_simp

text \<open>
  C6, amended.  The column letters skip \<open>I\<close>.  For a grid of any number \<open>N\<close> of rows the dump
  of \<open>boardToAscii\<close> is the header, then for each grid row \<open>y\<close> from the top the line that
  carries the row number \<open>N - y\<close>, then the header again; up to \<open>N = 19\<close> the header shows the
  first \<open>N\<close> letters.  \<open>toGtpCoordinate\<close> is given no board size: for every point in its range
  it writes the column letter and the row number \<open>19 - y\<close>.
\<close>

theorem text_row_numbers:
  "CHR ''I'' \<notin> set letters \<and>
   boardToAscii g =
     asciiHeader (length g) @ [newline] @
     concat (map (\<lambda>y. asciiLine (length g - y) (g ! y) (length g)) [0 ..< length g]) @
     asciiHeader (length g) \<and>
   (length g \<le> 19 \<longrightarrow>
      asciiHeader (length g) = ''   '' @ concat (map (\<lambda>i. [letters ! i, CHR '' '']) [0 ..< length g])) \<and>
   (0 \<le> x \<and> x < 19 \<and> 0 \<le> y \<and> y < 19 \<longrightarrow>
      toGtpCoordinate x y = (letters ! nat x) # decimal (nat (19 - y)))"
  using boardToAscii_closed [of g] asciiHeader_letters [of "length g"]
  by (simp add: letters_no_I toGtpCoordinate_def numberToString_def)

theorem text_row_numbers_witness:
  "length (createEmptyGrid 5) \<le> 19 \<and>
   asciiHeader (length (createEmptyGrid 5)) = ''   A B C D E '' \<and>
   boardToAscii (createEmptyGrid 5) =
     ''   A B C D E '' @ [newline] @
     concat (map (\<lambda>y. asciiLine (5 - y) (replicate 5 EMPTY) 5) [0, 1, 2, 3, 4]) @ ''   A B C D E '' \<and>
   (0::int) \<le> 3 \<and> (3::int) < 19 \<and> (0::int) \<le> 15 \<and> (15::int) < 19 \<and>
   toGtpCoordinate 3 15 = ''D4''"
  using text_row_numbers [of "createEmptyGrid 5" 3 15]
  by (simp add: createEmptyGrid_def letters_def decimal.simps upt_rec [of _ 5] upt_rec [of _ "Suc _"])

section \<open>Findings of the shape matcher\<close>

lemma set_addFound: "set (addFound f found) = insert f (set found)"
  by (auto simp: addFound_def)

lemma distinct_addFound: "distinct found \<Longrightarrow> distinct (addFound f found)"
  by (simp add: addFound_def)

lemma scanColumns_set:
  "set (scanColumns ng pat cs pG y xs found) =
     set found \<union> {shapeFinding pat cs (int x) (int y) | x. x \<in> set xs \<and> matchesAt ng pG (patSize pat) x y}"
  by (induction xs arbitrary: found) (auto simp: set_addFound)

lemma scanColumns_distinct:
  "distinct found \<Longrightarrow> distinct (scanColumns ng pat cs pG y xs found)"
  by (induction xs arbitrary: found) (simp_all add: distinct_addFound)

lemma scanRows_set:
  "set (scanRows ng sz pat cs pG ys found) =
     set found \<union> {shapeFinding pat cs (int x) (int y) | x y.
        y \<in> set ys \<and> x < windowCount sz pat \<and> matchesAt ng pG (patSize pat) x y}"
  by (induction ys arbitrary: found) (auto simp: scanColumns_set)

lemma scanRows_distinct:
  "distinct found \<Longrightarrow> distinct (scanRows ng sz pat cs pG ys found)"
  by (induction ys arbitrary: found) (simp_all add: scanColumns_distinct)

lemma scanRotations_set:
  "set (scanRotations ng sz pat cs pG rs found) =
     set found \<union> {shapeFinding pat cs (int x) (int y) | k x y.
        1 \<le> k \<and> k \<le> length rs \<and> x < windowCount sz pat \<and> y < windowCount sz pat \<and>
        matchesAt ng ((rotateGrid ^^ k) pG) (patSize pat) x y}"
proof (induction rs arbitrary: pG found)
  case Nil
  then show ?case by auto
next
  case (Cons r rs)
  let ?F = "\<lambda>k x y. shapeFinding pat cs (int x) (int y)"
  let ?M = "\<lambda>G k x y. x < windowCount sz pat \<and> y < windowCount sz pat \<and>
                matchesAt ng ((rotateGrid ^^ k) G) (patSize pat) x y"
  have split: "{?F k x y | k x y. 1 \<le> k \<and> k \<le> Suc (length rs) \<and> ?M pG k x y}
      = {?F 1 x y | x y. ?M pG 1 x y} \<union>
        {?F k x y | k x y. 1 \<le> k \<and> k \<le> length rs \<and> ?M (rotateGrid pG) k x y}"
    (is "?L = ?A \<union> ?B")
  proof (intro equalityI subsetI)
    fix f assume "f \<in> ?L"
    then obtain k x y where f: "f = ?F k x y" and k: "1 \<le> k" "k \<le> Suc (length rs)" and m: "?M pG k x y"
      by blast
    show "f \<in> ?A \<union> ?B"
    proof (cases "k = 1")
      case True
      with f m show ?thesis by blast
    next
      case False
      with k obtain j where j: "k = Suc j" "1 \<le> j" "j \<le> length rs"
        by (cases k) auto
      with m have "?M (rotateGrid pG) j x y" by (simp add: funpow_swap1)
      with f j show ?thesis by blast
    qed
  next
    fix f assume "f \<in> ?A \<union> ?B"
    then show "f \<in> ?L"
    proof
      assume "f \<in> ?A"
      then obtain x y where "f = ?F 1 x y" "?M pG 1 x y" by blast
      then show ?thesis by (intro CollectI exI [of _ 1] exI [of _ x] exI [of _ y]) simp
    next
      assume "f \<in> ?B"
      then obtain k x y where f: "f = ?F k x y" and k: "1 \<le> k" "k \<le> length rs"
        and m: "?M (rotateGrid pG) k x y" by blast
      from m have "?M pG (Suc k) x y" by (simp add: funpow_swap1)
      with f k show ?thesis by (intro CollectI exI [of _ "Suc k"] exI [of _ x] exI [of _ y]) simp
    qed
  qed
  have "set (scanRotations ng sz pat cs pG (r # rs) found)
      = set (scanRows ng sz pat cs (rotateGrid pG) [0 ..< windowCount sz pat] found) \<union> ?B"
    by (simp only: scanRotations.simps Cons.IH)
  also have "set (scanRows ng sz pat cs (rotateGrid pG) [0 ..< windowCount sz pat] found)
      = set found \<union> ?A"
    by (auto simp: scanRows_set)
  finally have "set (scanRotations ng sz pat cs pG (r # rs) found) = set found \<union> (?A \<union> ?B)"
    by (simp only: Un_assoc)
  with split show ?case by simp
qed

lemma scanRotations_distinct:
  "distinct found \<Longrightarrow> distinct (scanRotations ng sz pat cs pG rs found)"
  by (induction rs arbitrary: pG found) (simp_all add: scanRows_distinct)

lemma scanColors_set:
  "set (scanColors ng sz pat colors found) =
     set found \<union> {shapeFinding pat cs (int x) (int y) | cs k x y.
        cs \<in> set colors \<and> 1 \<le> k \<and> k \<le> 4 \<and> x < windowCount sz pat \<and> y < windowCount sz pat \<and>
        matchesAt ng ((rotateGrid ^^ k) (assignColors pat cs)) (patSize pat) x y}"
  by (induction colors arbitrary: found) (auto simp: scanRotations_set)

lemma scanColors_distinct:
  "distinct found \<Longrightarrow> distinct (scanColors ng sz pat colors found)"
  by (induction colors arbitrary: found) (simp_all add: scanRotations_distinct)

lemma scanPatterns_set:
  "set (scanPatterns ng sz pats found) =
     set found \<union> {shapeFinding pat cs (int x) (int y) | pat cs k x y.
        pat \<in> set pats \<and> cs \<in> {1, - 1} \<and> 1 \<le> k \<and> k \<le> 4 \<and>
        x < windowCount sz pat \<and> y < windowCount sz pat \<and>
        matchesAt ng ((rotateGrid ^^ k) (assignColors pat cs)) (patSize pat) x y}"
proof (induction pats arbitrary: found)
  case Nil
  then show ?case by simp
next
  case (Cons pat pats)
  show ?case
    apply (simp only: scanPatterns.simps Cons.IH scanColors_set)
    apply (rule set_eqI)
    apply (simp only: Un_iff mem_Collect_eq set_simps insert_iff empty_iff)
    apply blast
    done
qed

lemma scanPatterns_distinct:
  "distinct found \<Longrightarrow> distinct (scanPatterns ng sz pats found)"
  by (induction pats arbitrary: found) (simp_all add: scanColors_distinct del: scanColors.simps)

text \<open>
  C7, as the claim states it, fails: on \<open>ponnukiBoard\<close> the Ponnuki template matches the window
  whose corner is \<open>(0, 0)\<close>; the first point of the template with a stone is at offset
  \<open>(1, 0)\<close>, the point \<open>B19\<close>, and the only finding names the corner \<open>A19\<close>, an empty point.
\<close>

theorem findShapes_anchor_counterexample:
  "recordsMatch ponnukiBoard (PATTERNS ! 1) 1 1 0 0 \<and>
   patternAnchor ((rotateGrid ^^ 1) (assignColors (PATTERNS ! 1) 1)) = Some (1, 0) \<and>
   toGtpCoordinate (0 + 1) (0 + 0) = ''B19'' \<and>
   toGtpCoordinate 0 0 = ''A19'' \<and>
   findShapesHeuristic ponnukiBoard = [''GOOD: Black Ponnuki at A19'']"
  by code_simp

text \<open>
  C7, amended.  The findings are exactly the strings built from the recorded matches, each
  with the pattern's type and name, the colour, and as coordinate \<open>toGtpCoordinate x y\<close> of the
  top-left corner \<open>(x, y)\<close> of the matching window; and no finding occurs twice in the list,
  whatever rotations and windows produce it.
\<close>

theorem findShapes_anchor:
  "distinct (findShapesHeuristic g) \<and>
   set (findShapesHeuristic g) =
     {patType pat @ '': '' @ (if colorSign = 1 then ''Black'' else ''White'') @ '' '' @ patName pat @
      '' at '' @ toGtpCoordinate (int x) (int y) | pat colorSign k x y. recordsMatch g pat colorSign k x y}"
  by (auto simp: findShapesHeuristic_def scanPatterns_distinct scanPatterns_set recordsMatch_def
      shapeFinding_def)

section \<open>Influence of the empty board\<close>

lemma index_Some_mem: "index xs i = Some v \<Longrightarrow> v \<in> set xs"
  by (auto simp: index_def nat_less_iff split: if_splits)

lemma all_empty_no_stones:
  assumes "\<forall>row \<in> set g. \<forall>c \<in> set row. c = EMPTY"
  shows "influenceStones g = []"
proof -
  have "index (g ! nat (snd p)) (fst p) \<noteq> Some BLACK \<and> index (g ! nat (snd p)) (fst p) \<noteq> Some WHITE"
    if "p \<in> set (squarePositions (length g))" for p
  proof -
    from that have "nat (snd p) < length g" by (auto simp: squarePositions_def)
    then have "g ! nat (snd p) \<in> set g" by simp
    with assms have "\<forall>c \<in> set (g ! nat (snd p)). c = EMPTY" by blast
    then show ?thesis by (auto dest!: index_Some_mem)
  qed
  then show ?thesis by (auto simp: influenceStones_def)
qed

lemma neutral_fold: "foldl (\<lambda>(b, w) p. (b, w)) (b0, w0) ps = (b0, w0)"
  by (induction ps) simp_all

text \<open>
  C9.  On a grid all of whose cells are \<open>EMPTY\<close> the heuristic collects no stone, every point's
  score is the empty sum 0, neither threshold is passed, and both areas are 0; so is the
  result of \<open>calculateInfluence\<close> when the influence library gives no summary.
\<close>

theorem influence_of_empty_board:
  assumes "\<forall>row \<in> set g. \<forall>c \<in> set row. c = EMPTY"
  shows "calculateInfluenceHeuristic g = (0, 0) \<and> calculateInfluence None g = (0, 0)"
  using neutral_fold [of 0 0]
  by (simp add: calculateInfluenceHeuristic_def calculateInfluence_def
      all_empty_no_stones [OF assms] influenceAt_def)

theorem influence_of_empty_board_witness:
  "list_all (list_all (\<lambda>c. c = EMPTY)) (createEmptyGrid 19) \<and>
   calculateInfluenceHeuristic (createEmptyGrid 19) = (0, 0) \<and>
   calculateInfluence None (createEmptyGrid 19) = (0, 0)"
  using influence_of_empty_board [of "createEmptyGrid 19"]
  by (simp add: createEmptyGrid_def list_all_iff)

section \<open>The flood fill on the standard board\<close>

lemma stoneAt_standard:
  assumes "standardBoard g"
  shows "stoneAt g p = (if onBoard19 p then Some (g ! nat (snd p) ! nat (fst p)) else None)"
proof (cases "0 \<le> snd p \<and> snd p < 19")
  case True
  with assms have "nat (snd p) < length g" by (simp add: standardBoard_def nat_less_iff)
  then have "g ! nat (snd p) \<in> set g" by simp
  with assms have "length (g ! nat (snd p)) = 19" by (simp add: standardBoard_def list_all_iff)
  with True assms show ?thesis
    by (simp add: stoneAt_def cell_def index_def onBoard19_def standardBoard_def)
next
  case False
  with assms show ?thesis
    by (auto simp: stoneAt_def cell_def index_def onBoard19_def standardBoard_def)
qed

lemma cell_standard:
  assumes "standardBoard g" "onBoard19 p"
  shows "cell g (fst p) (snd p) = Inr (stoneAt g p)" "stoneAt g p \<noteq> None"
proof -
  from assms have "nat (snd p) < length g" by (simp add: standardBoard_def onBoard19_def nat_less_iff)
  with assms show "cell g (fst p) (snd p) = Inr (stoneAt g p)"
    by (simp add: stoneAt_def cell_def index_def onBoard19_def standardBoard_def)
  from assms show "stoneAt g p \<noteq> None" by (simp add: stoneAt_standard)
qed

lemma stoneAt_onBoard: "standardBoard g \<Longrightarrow> stoneAt g p = Some s \<Longrightarrow> onBoard19 p"
  by (simp add: stoneAt_standard split: if_splits)

lemma neighbors_iff:
  assumes "onBoard19 p"
  shows "n \<in> set (getNeighbors (fst p) (snd p) BOARD_SIZE) \<longleftrightarrow> adjacent p n \<and> onBoard19 n"
  using assms
  by (cases p; cases n) (auto simp: getNeighbors_def BOARD_SIZE_def adjacent_def onBoard19_def)

lemma adjacent_sym: "adjacent p q \<Longrightarrow> adjacent q p"
  by (simp add: adjacent_def abs_minus_commute)

lemma scanNeighbors_result:
  assumes "\<forall>n \<in> set ns. cell g (fst n) (snd n) = Inr (stoneAt g n)" and "c \<noteq> EMPTY"
  shows "\<exists>st'. scanNeighbors g (Some c) vis ns (lib, st)
                 = Inr (lib \<or> (\<exists>n \<in> set ns. stoneAt g n = Some EMPTY), st') \<and>
               set st' = set st \<union> set (filter (\<lambda>n. stoneAt g n = Some c \<and> n \<notin> vis) ns)"
  using assms
proof (induction ns arbitrary: lib st)
  case Nil
  then show ?case by simp
next
  case (Cons n ns)
  from Cons.prems have cn: "cell g (fst n) (snd n) = Inr (stoneAt g n)"
    and rest: "\<forall>n \<in> set ns. cell g (fst n) (snd n) = Inr (stoneAt g n)" by simp_all
  let ?P = "\<lambda>n. stoneAt g n = Some c \<and> n \<notin> vis"
  consider (empty) "stoneAt g n = Some EMPTY"
    | (push) "stoneAt g n = Some c" "n \<notin> vis"
    | (skip) "stoneAt g n \<noteq> Some EMPTY" "\<not> (stoneAt g n = Some c \<and> n \<notin> vis)"
    using \<open>c \<noteq> EMPTY\<close> by blast
  then show ?case
  proof cases
    case empty
    from Cons.IH [OF rest \<open>c \<noteq> EMPTY\<close>, of True st] obtain st' where
      r: "scanNeighbors g (Some c) vis ns (True, st) = Inr (True, st')"
      and s: "set st' = set st \<union> set (filter ?P ns)" by auto
    from empty cn r have "scanNeighbors g (Some c) vis (n # ns) (lib, st)
        = Inr (lib \<or> (\<exists>m \<in> set (n # ns). stoneAt g m = Some EMPTY), st')" by simp
    moreover from empty \<open>c \<noteq> EMPTY\<close> have "\<not> ?P n" by simp
    with s have "set st' = set st \<union> set (filter ?P (n # ns))" by auto
    ultimately show ?thesis by blast
  next
    case push
    from Cons.IH [OF rest \<open>c \<noteq> EMPTY\<close>, of lib "n # st"] obtain st' where
      r: "scanNeighbors g (Some c) vis ns (lib, n # st)
            = Inr (lib \<or> (\<exists>n \<in> set ns. stoneAt g n = Some EMPTY), st')"
      and s: "set st' = set (n # st) \<union> set (filter ?P ns)" by blast
    from push \<open>c \<noteq> EMPTY\<close> have ne: "stoneAt g n \<noteq> Some EMPTY" by simp
    from push ne cn r have "scanNeighbors g (Some c) vis (n # ns) (lib, st)
        = Inr (lib \<or> (\<exists>m \<in> set (n # ns). stoneAt g m = Some EMPTY), st')" by simp
    moreover from push have "?P n" by simp
    with s have "set st' = set st \<union> set (filter ?P (n # ns))" by simp
    ultimately show ?thesis by blast
  next
    case skip
    from Cons.IH [OF rest \<open>c \<noteq> EMPTY\<close>, of lib st] obtain st' where
      r: "scanNeighbors g (Some c) vis ns (lib, st)
            = Inr (lib \<or> (\<exists>n \<in> set ns. stoneAt g n = Some EMPTY), st')"
      and s: "set st' = set st \<union> set (filter ?P ns)" by blast
    from skip cn r have "scanNeighbors g (Some c) vis (n # ns) (lib, st)
        = Inr (lib \<or> (\<exists>m \<in> set (n # ns). stoneAt g m = Some EMPTY), st')" by auto
    moreover from skip(2) s have "set st' = set st \<union> set (filter ?P (n # ns))" by auto
    ultimately show ?thesis by blast
  qed
qed

text \<open>The invariant of the \<open>while\<close> loop of \<open>checkLiberties\<close>, for the group of \<open>seed\<close>.\<close>

definition floodInv ::
  "Grid \<Rightarrow> StoneColor \<Rightarrow> Coordinate \<Rightarrow> Coordinate set \<Rightarrow> Coordinate list \<Rightarrow> Coordinate list \<Rightarrow> bool \<Rightarrow> bool" where
  "floodInv g c seed vis st grp lib \<longleftrightarrow>
     set grp = vis \<and> distinct grp \<and> vis \<union> set st \<subseteq> groupOf g c seed \<and> seed \<in> vis \<union> set st \<and>
     (\<forall>v \<in> vis. \<forall>n. adjacent v n \<and> stoneAt g n = Some c \<longrightarrow> n \<in> vis \<union> set st) \<and>
     (lib \<longleftrightarrow> (\<exists>v \<in> vis. \<exists>n. adjacent v n \<and> stoneAt g n = Some EMPTY))"

lemma floodInvD:
  assumes "floodInv g c seed vis st grp lib"
  shows "set grp = vis" and "distinct grp" and "vis \<union> set st \<subseteq> groupOf g c seed"
    and "seed \<in> vis \<union> set st"
    and "\<And>v n. v \<in> vis \<Longrightarrow> adjacent v n \<Longrightarrow> stoneAt g n = Some c \<Longrightarrow> n \<in> vis \<union> set st"
    and "lib \<longleftrightarrow> (\<exists>v \<in> vis. \<exists>n. adjacent v n \<and> stoneAt g n = Some EMPTY)"
  using assms unfolding floodInv_def by blast+

lemma groupOf_color:
  assumes "stoneAt g seed = Some c" "q \<in> groupOf g c seed"
  shows "stoneAt g q = Some c"
proof -
  from assms(2) have "(seed, q) \<in> (sameColorLink g c)\<^sup>*" by (simp add: groupOf_def)
  then show ?thesis
    by (induction rule: rtrancl_induct) (use assms(1) in \<open>auto simp: sameColorLink_def\<close>)
qed

lemma groupOf_step:
  assumes "stoneAt g seed = Some c" "q \<in> groupOf g c seed" "adjacent q n" "stoneAt g n = Some c"
  shows "n \<in> groupOf g c seed"
proof -
  from assms(1,2) have "stoneAt g q = Some c" by (rule groupOf_color)
  with assms(3,4) have "(q, n) \<in> sameColorLink g c" by (simp add: sameColorLink_def)
  with assms(2) show ?thesis by (auto simp: groupOf_def intro: rtrancl_into_rtrancl)
qed

lemma floodInv_init: "floodInv g c seed {} [seed] [] False"
  by (simp add: floodInv_def groupOf_def)

lemma floodInv_skip:
  assumes inv: "floodInv g c seed vis (cur # st) grp lib" and old: "cur \<in> vis"
  shows "floodInv g c seed vis st grp lib"
proof -
  note i1 = floodInvD(1) [OF inv] and i2 = floodInvD(2) [OF inv] and i3 = floodInvD(3) [OF inv]
    and i4 = floodInvD(4) [OF inv] and i5 = floodInvD(5) [OF inv] and i6 = floodInvD(6) [OF inv]
  from i3 have j3: "vis \<union> set st \<subseteq> groupOf g c seed" by auto
  from i4 old have j4: "seed \<in> vis \<union> set st" by auto
  have j5: "n \<in> vis \<union> set st" if "v \<in> vis" "adjacent v n" "stoneAt g n = Some c" for v n
    using i5 [OF that] old by auto
  show ?thesis unfolding floodInv_def using i1 i2 j3 j4 j5 i6 by blast
qed

lemma floodInv_final:
  assumes "floodInv g c seed vis [] grp lib"
  shows "set grp = groupOf g c seed" "distinct grp"
    "lib \<longleftrightarrow> (\<exists>v \<in> groupOf g c seed. \<exists>n. adjacent v n \<and> stoneAt g n = Some EMPTY)"
proof -
  from floodInvD(3) [OF assms] have sub: "vis \<subseteq> groupOf g c seed" by simp
  from floodInvD(4) [OF assms] have seed: "seed \<in> vis" by simp
  note grp = floodInvD(1) [OF assms]
  have closed: "n \<in> vis" if "v \<in> vis" "adjacent v n" "stoneAt g n = Some c" for v n
    using floodInvD(5) [OF assms that] by simp
  note lib = floodInvD(6) [OF assms]
  have "q \<in> vis" if "q \<in> groupOf g c seed" for q
  proof -
    from that have "(seed, q) \<in> (sameColorLink g c)\<^sup>*" by (simp add: groupOf_def)
    then show ?thesis
      by (induction rule: rtrancl_induct) (use seed closed in \<open>auto simp: sameColorLink_def\<close>)
  qed
  with sub have eq: "vis = groupOf g c seed" by blast
  with grp show "set grp = groupOf g c seed" by simp
  from floodInvD(2) [OF assms] show "distinct grp" .
  from lib eq show "lib \<longleftrightarrow> (\<exists>v \<in> groupOf g c seed. \<exists>n. adjacent v n \<and> stoneAt g n = Some EMPTY)"
    by simp
qed

lemma floodInv_visit:
  assumes std: "standardBoard g" and c: "c \<noteq> EMPTY" and seed: "stoneAt g seed = Some c"
    and inv: "floodInv g c seed vis (cur # st) grp lib" and new: "cur \<notin> vis"
  shows "\<exists>lib' st'. scanNeighbors g (Some c) (insert cur vis)
                        (getNeighbors (fst cur) (snd cur) BOARD_SIZE) (lib, st) = Inr (lib', st') \<and>
                     floodInv g c seed (insert cur vis) st' (grp @ [cur]) lib'"
proof -
  let ?ns = "getNeighbors (fst cur) (snd cur) BOARD_SIZE"
  from inv have curG: "cur \<in> groupOf g c seed" by (simp add: floodInv_def)
  from seed curG have curc: "stoneAt g cur = Some c" by (rule groupOf_color)
  with std have curB: "onBoard19 cur" by (rule stoneAt_onBoard)
  have nb: "n \<in> set ?ns \<longleftrightarrow> adjacent cur n \<and> onBoard19 n" for n
    by (rule neighbors_iff [OF curB])
  have cells: "\<forall>n \<in> set ?ns. cell g (fst n) (snd n) = Inr (stoneAt g n)"
    using nb cell_standard(1) [OF std] by blast
  from scanNeighbors_result [OF cells c, of "insert cur vis" lib st] obtain st' where
    res: "scanNeighbors g (Some c) (insert cur vis) ?ns (lib, st)
            = Inr (lib \<or> (\<exists>n \<in> set ?ns. stoneAt g n = Some EMPTY), st')"
    and st': "set st' = set st \<union> {n \<in> set ?ns. stoneAt g n = Some c \<and> n \<notin> insert cur vis}"
    by auto
  let ?lib' = "lib \<or> (\<exists>n \<in> set ?ns. stoneAt g n = Some EMPTY)"
  have adjB: "adjacent cur n \<Longrightarrow> stoneAt g n = Some s \<Longrightarrow> n \<in> set ?ns" for n s
    using nb stoneAt_onBoard [OF std] by blast
  note i1 = floodInvD(1) [OF inv] and i2 = floodInvD(2) [OF inv] and i3 = floodInvD(3) [OF inv]
    and i4 = floodInvD(4) [OF inv] and i5 = floodInvD(5) [OF inv] and i6 = floodInvD(6) [OF inv]
  have j1: "set (grp @ [cur]) = insert cur vis" using i1 by auto
  have j2: "distinct (grp @ [cur])" using i1 i2 new by auto
  have j3: "insert cur vis \<union> set st' \<subseteq> groupOf g c seed"
  proof -
    have "n \<in> groupOf g c seed" if "n \<in> set ?ns" "stoneAt g n = Some c" for n
      using groupOf_step [OF seed curG _ that(2)] nb that(1) by blast
    with i3 st' show ?thesis by auto
  qed
  have j4: "seed \<in> insert cur vis \<union> set st'" using i4 st' by auto
  have j5: "n \<in> insert cur vis \<union> set st'" if "v \<in> insert cur vis" "adjacent v n" "stoneAt g n = Some c" for v n
  proof (cases "v = cur")
    case True
    with that adjB have "n \<in> set ?ns" by blast
    with that st' show ?thesis by auto
  next
    case False
    with that have "v \<in> vis" by simp
    from i5 [OF this that(2,3)] st' show ?thesis by auto
  qed
  have j6: "?lib' \<longleftrightarrow> (\<exists>v \<in> insert cur vis. \<exists>n. adjacent v n \<and> stoneAt g n = Some EMPTY)"
    using i6 nb adjB by blast
  have "floodInv g c seed (insert cur vis) st' (grp @ [cur]) ?lib'"
    unfolding floodInv_def using j1 j2 j3 j4 j5 j6 by blast
  with res show ?thesis by blast
qed

lemma loop_correct:
  "co = Some c \<Longrightarrow> standardBoard g \<Longrightarrow> c \<noteq> EMPTY \<Longrightarrow> stoneAt g seed = Some c \<Longrightarrow>
   floodInv g c seed vis st grp lib \<Longrightarrow>
   \<exists>lib' grp'. checkLiberties_loop g co vis st grp lib = Inr (lib', grp') \<and>
      distinct grp' \<and> set grp' = groupOf g c seed \<and>
      (lib' \<longleftrightarrow> (\<exists>v \<in> groupOf g c seed. \<exists>n. adjacent v n \<and> stoneAt g n = Some EMPTY))"
proof (induction g co vis st grp lib rule: checkLiberties_loop.induct)
  case (1 g co vis grp lib)
  from floodInv_final [OF "1.prems"(5)] show ?case by simp
next
  case (2 g co vis cur st grp lib)
  note co = "2.prems"(1)
  show ?case
  proof (cases "cur \<in> vis")
    case True
    from floodInv_skip [OF "2.prems"(5) True] have "floodInv g c seed vis st grp lib" .
    from "2.IH"(1) [OF True "2.prems"(1-4) this] True show ?thesis by simp
  next
    case False
    from floodInv_visit [OF "2.prems"(2-5) False] obtain lib' st' where
      res: "scanNeighbors g co (insert cur vis) (getNeighbors (fst cur) (snd cur) BOARD_SIZE) (lib, st)
              = Inr (lib', st')"
      and inv': "floodInv g c seed (insert cur vis) st' (grp @ [cur]) lib'"
      unfolding co by blast
    from "2.IH"(2) [OF False res refl "2.prems"(1-4) inv'] False res show ?thesis by simp
  qed
qed

lemma sameColorLink_sym: "(p, q) \<in> sameColorLink g c \<Longrightarrow> (q, p) \<in> sameColorLink g c"
  by (simp add: sameColorLink_def adjacent_sym)

lemma sameColorLink_rtrancl_sym:
  "(p, q) \<in> (sameColorLink g c)\<^sup>* \<Longrightarrow> (q, p) \<in> (sameColorLink g c)\<^sup>*"
  by (induction rule: rtrancl_induct) (auto intro: converse_rtrancl_into_rtrancl sameColorLink_sym)

lemma groupOf_self: "p \<in> groupOf g c p"
  by (simp add: groupOf_def)

lemma groupOf_eq:
  assumes "q \<in> groupOf g c p"
  shows "groupOf g c q = groupOf g c p"
proof -
  from assms have pq: "(p, q) \<in> (sameColorLink g c)\<^sup>*" by (simp add: groupOf_def)
  then have qp: "(q, p) \<in> (sameColorLink g c)\<^sup>*" by (rule sameColorLink_rtrancl_sym)
  show ?thesis unfolding groupOf_def using pq qp by (auto intro: rtrancl_trans)
qed

lemma checkLiberties_correct:
  assumes "standardBoard g" "stoneAt g (x, y) = Some c" "c \<noteq> EMPTY"
  shows "\<exists>lib grp. checkLiberties g x y (Some c) = Inr (lib, grp) \<and> distinct grp \<and>
           set grp = groupOf g c (x, y) \<and> (lib \<longleftrightarrow> libertiesOf g (groupOf g c (x, y)) \<noteq> {})"
proof -
  from loop_correct [OF refl assms(1,3,2) floodInv_init] obtain lib grp where
    "checkLiberties_loop g (Some c) {} [(x, y)] [] False = Inr (lib, grp)" "distinct grp"
    "set grp = groupOf g c (x, y)"
    "lib \<longleftrightarrow> (\<exists>v \<in> groupOf g c (x, y). \<exists>n. adjacent v n \<and> stoneAt g n = Some EMPTY)" by blast
  moreover have "(\<exists>v \<in> groupOf g c (x, y). \<exists>n. adjacent v n \<and> stoneAt g n = Some EMPTY)
                   \<longleftrightarrow> libertiesOf g (groupOf g c (x, y)) \<noteq> {}"
    by (auto simp: libertiesOf_def)
  ultimately show ?thesis by (simp add: checkLiberties_def)
qed

text \<open>
  C5.  The claim says that for every grid \<open>checkLiberties\<close> returns the maximal group of the
  seed.  On \<open>smallBoard\<close>, a 9 by 9 grid, resolving the Black stone at \<open>(0, 8)\<close> throws instead
  of returning its group.  On \<open>wideBoard\<close>, a 20 by 20 grid, the stones at \<open>(18, 0)\<close> and
  \<open>(19, 0)\<close> are adjacent and Black, and the group resolved from \<open>(18, 0)\<close> is that stone
  alone: it is not maximal.  In both cases the neighbours were enumerated for a board of
  side 19.
\<close>

theorem checkLiberties_group_counterexample:
  "stoneAt wideBoard (18, 0) = Some BLACK \<and> stoneAt wideBoard (19, 0) = Some BLACK \<and>
   adjacent (18, 0) (19, 0) \<and>
   checkLiberties wideBoard 18 0 (Some BLACK) = Inr (True, [(18, 0)]) \<and>
   stoneAt smallBoard (0, 8) = Some BLACK \<and>
   checkLiberties smallBoard 0 8 (Some BLACK) = Inl TypeError"
  by code_simp

text \<open>
  On the standard board the resolver is correct.  For a 19 by 19 grid and a point that holds
  a stone of the queried colour, \<open>checkLiberties\<close> returns, without repetition, exactly the
  group of that point: the stones reached from it through adjacent stones of the colour.
  All members have that colour, every stone of the colour adjacent to a member is a member,
  and \<open>hasLiberties\<close> holds if and only if an empty point is adjacent to a member.  Every
  point that holds a stone lies in exactly one of the groups returned over all seeds.
\<close>

theorem checkLiberties_standard_board:
  assumes "standardBoard g"
  shows "(stoneAt g (x, y) = Some c \<and> c \<noteq> EMPTY \<longrightarrow>
            (\<exists>hasLiberties grp. checkLiberties g x y (Some c) = Inr (hasLiberties, grp) \<and>
               distinct grp \<and> (x, y) \<in> set grp \<and> set grp = groupOf g c (x, y) \<and>
               (\<forall>q \<in> set grp. stoneAt g q = Some c) \<and>
               (\<forall>q \<in> set grp. \<forall>n. adjacent q n \<and> stoneAt g n = Some c \<longrightarrow> n \<in> set grp) \<and>
               (hasLiberties \<longleftrightarrow> libertiesOf g (set grp) \<noteq> {}))) \<and>
         (\<forall>p col. stoneAt g p = Some col \<and> col \<noteq> EMPTY \<longrightarrow> (\<exists>!G. G \<in> resolvedGroups g \<and> p \<in> G))"
proof (intro conjI impI allI)
  assume a: "stoneAt g (x, y) = Some c \<and> c \<noteq> EMPTY"
  then have s: "stoneAt g (x, y) = Some c" and c: "c \<noteq> EMPTY" by simp_all
  from checkLiberties_correct [OF assms s c] obtain lib grp where
    r: "checkLiberties g x y (Some c) = Inr (lib, grp)" and d: "distinct grp"
    and e: "set grp = groupOf g c (x, y)" and l: "lib \<longleftrightarrow> libertiesOf g (groupOf g c (x, y)) \<noteq> {}"
    by blast
  have col: "\<forall>q \<in> set grp. stoneAt g q = Some c" using e groupOf_color [OF s] by blast
  have mx: "\<forall>q \<in> set grp. \<forall>n. adjacent q n \<and> stoneAt g n = Some c \<longrightarrow> n \<in> set grp"
    using e groupOf_step [OF s] by blast
  have mem: "(x, y) \<in> set grp" using e groupOf_self by blast
  from l e have l': "lib \<longleftrightarrow> libertiesOf g (set grp) \<noteq> {}" by simp
  show "\<exists>hasLiberties grp. checkLiberties g x y (Some c) = Inr (hasLiberties, grp) \<and>
               distinct grp \<and> (x, y) \<in> set grp \<and> set grp = groupOf g c (x, y) \<and>
               (\<forall>q \<in> set grp. stoneAt g q = Some c) \<and>
               (\<forall>q \<in> set grp. \<forall>n. adjacent q n \<and> stoneAt g n = Some c \<longrightarrow> n \<in> set grp) \<and>
               (hasLiberties \<longleftrightarrow> libertiesOf g (set grp) \<noteq> {})"
    by (intro exI [of _ lib] exI [of _ grp] conjI) (rule r d mem e col mx l')+
next
  fix p col assume a: "stoneAt g p = Some col \<and> col \<noteq> EMPTY"
  then have s: "stoneAt g p = Some col" and c: "col \<noteq> EMPTY" by simp_all
  have res: "G \<in> resolvedGroups g \<longleftrightarrow> (\<exists>s c. stoneAt g s = Some c \<and> c \<noteq> EMPTY \<and> G = groupOf g c s)" for G
  proof
    assume "G \<in> resolvedGroups g"
    then obtain s c lib grp where h: "stoneAt g s = Some c" "c \<noteq> EMPTY"
      "checkLiberties g (fst s) (snd s) (Some c) = Inr (lib, grp)" "G = set grp"
      by (auto simp: resolvedGroups_def)
    from checkLiberties_correct [OF assms, of "fst s" "snd s" c] h
    have "set grp = groupOf g c s" by auto
    with h show "\<exists>s c. stoneAt g s = Some c \<and> c \<noteq> EMPTY \<and> G = groupOf g c s" by blast
  next
    assume "\<exists>s c. stoneAt g s = Some c \<and> c \<noteq> EMPTY \<and> G = groupOf g c s"
    then obtain s c where h: "stoneAt g s = Some c" "c \<noteq> EMPTY" "G = groupOf g c s" by blast
    from checkLiberties_correct [OF assms, of "fst s" "snd s" c] h
    obtain lib grp where "checkLiberties g (fst s) (snd s) (Some c) = Inr (lib, grp)" "set grp = groupOf g c s"
      by auto
    with h show "G \<in> resolvedGroups g" unfolding resolvedGroups_def by blast
  qed
  show "\<exists>!G. G \<in> resolvedGroups g \<and> p \<in> G"
  proof (rule ex1I [of _ "groupOf g col p"])
    show "groupOf g col p \<in> resolvedGroups g \<and> p \<in> groupOf g col p"
      using res s c groupOf_self by blast
  next
    fix G assume "G \<in> resolvedGroups g \<and> p \<in> G"
    then obtain s' c' where h: "stoneAt g s' = Some c'" "c' \<noteq> EMPTY" "G = groupOf g c' s'" "p \<in> G"
      using res by blast
    from groupOf_color [OF h(1)] h(3,4) have "stoneAt g p = Some c'" by blast
    with s have "c' = col" by simp
    with h(3,4) groupOf_eq [of p g col s'] show "G = groupOf g col p" by simp
  qed
qed

lemma cornerBoard_standard: "standardBoard cornerBoard"
  by code_simp

lemma cornerBoard_eval:
  "stoneAt cornerBoard (1, 0) = Some WHITE"
  "checkLiberties cornerBoard 1 0 (Some WHITE) = Inr (True, [(1, 0), (1, 1), (0, 1)])"
  by code_simp+

theorem checkLiberties_standard_board_witness:
  "standardBoard cornerBoard \<and> stoneAt cornerBoard (1, 0) = Some WHITE \<and>
   checkLiberties cornerBoard 1 0 (Some WHITE) = Inr (True, [(1, 0), (1, 1), (0, 1)]) \<and>
   groupOf cornerBoard WHITE (1, 0) = {(1, 0), (1, 1), (0, 1)} \<and>
   libertiesOf cornerBoard {(1, 0), (1, 1), (0, 1)} \<noteq> {}"
  using checkLiberties_standard_board [OF cornerBoard_standard, of 1 0 WHITE]
    cornerBoard_standard cornerBoard_eval
  by auto

section \<open>Rejections of the move engine\<close>

lemma setCell_standard: "standardBoard g \<Longrightarrow> standardBoard (setCell g x y v)"
  by (auto simp: standardBoard_def setCell_def list_all_iff dest!: set_update_subset_insert [THEN subsetD])

lemma stoneAt_setCell:
  assumes "standardBoard g" "onBoard19 (x, y)"
  shows "stoneAt (setCell g x y v) q = (if q = (x, y) then Some v else stoneAt g q)"
proof -
  from assms have y: "nat y < length g" and x: "nat x < length (g ! nat y)"
    and ge: "0 \<le> x" "0 \<le> y" "x < 19" "y < 19"
    by (auto simp: standardBoard_def onBoard19_def list_all_length nat_less_iff)
  from assms have len: "length (g ! nat y) = 19" "length g = 19"
    using y by (auto simp: standardBoard_def list_all_length)
  have sc: "setCell g x y v = g[nat y := (g ! nat y)[nat x := v]]"
    using ge len by (simp add: setCell_def)
  have std': "standardBoard (setCell g x y v)" by (rule setCell_standard [OF assms(1)])
  have nthq: "setCell g x y v ! nat (snd q) ! nat (fst q)
                = (if q = (x, y) then v else g ! nat (snd q) ! nat (fst q))" if "onBoard19 q"
  proof -
    from that have q: "nat (snd q) < 19" "nat (fst q) < 19" "0 \<le> fst q" "0 \<le> snd q"
      by (auto simp: onBoard19_def nat_less_iff)
    show ?thesis
    proof (cases "q = (x, y)")
      case True
      with y x show ?thesis by (simp add: sc)
    next
      case False
      then have "nat (snd q) \<noteq> nat y \<or> nat (fst q) \<noteq> nat x"
        using q ge by (cases q) auto
      with False y x len q show ?thesis
        by (auto simp: sc nth_list_update)
    qed
  qed
  show ?thesis
  proof (cases "onBoard19 q")
    case True
    from nthq [OF True] True show ?thesis
      by (simp add: stoneAt_standard [OF std'] stoneAt_standard [OF assms(1)])
  next
    case False
    with assms(2) have "q \<noteq> (x, y)" by auto
    with False show ?thesis
      by (simp add: stoneAt_standard [OF std'] stoneAt_standard [OF assms(1)])
  qed
qed

lemma setCell_off:
  assumes "standardBoard g" "\<not> onBoard19 (x, y)"
  shows "setCell g x y v = g"
proof (cases "0 \<le> y \<and> y < 19")
  case True
  with assms(1) have "nat y < length g" by (simp add: standardBoard_def nat_less_iff)
  with assms(1) have "length (g ! nat y) = 19" by (simp add: standardBoard_def list_all_length)
  with assms True show ?thesis by (auto simp: setCell_def onBoard19_def standardBoard_def)
next
  case False
  with assms show ?thesis by (auto simp: setCell_def standardBoard_def)
qed

lemma removeStones_standard: "standardBoard g \<Longrightarrow> standardBoard (removeStones g cs)"
  unfolding removeStones_def by (induction cs arbitrary: g) (simp_all add: setCell_standard)

lemma stoneAt_removeStones:
  "standardBoard g \<Longrightarrow>
     stoneAt (removeStones g cs) q = (if q \<in> set cs \<and> onBoard19 q then Some EMPTY else stoneAt g q)"
proof (induction cs arbitrary: g)
  case Nil
  then show ?case by (simp add: removeStones_def)
next
  case (Cons s cs)
  let ?g' = "setCell g (fst s) (snd s) EMPTY"
  have std': "standardBoard ?g'" by (rule setCell_standard [OF Cons.prems])
  have step: "removeStones g (s # cs) = removeStones ?g' cs" by (simp add: removeStones_def)
  have g': "stoneAt ?g' q = (if q = s \<and> onBoard19 s then Some EMPTY else stoneAt g q)"
  proof (cases "onBoard19 s")
    case True
    then have "onBoard19 (fst s, snd s)" by simp
    from stoneAt_setCell [OF Cons.prems this, of EMPTY q] True show ?thesis by simp
  next
    case False
    then have "\<not> onBoard19 (fst s, snd s)" by simp
    from setCell_off [OF Cons.prems this] False show ?thesis by simp
  qed
  show ?case unfolding step Cons.IH [OF std'] g' by auto
qed

lemma opponentOf_neq: "opponentOf color \<noteq> EMPTY" "opponentOf color \<noteq> color"
  by (auto simp: opponentOf_def)

lemma captureNeighbors_result:
  assumes std: "standardBoard pl" and opp: "opp \<noteq> EMPTY" and ns: "\<forall>n \<in> set ns. onBoard19 n"
  shows "\<exists>cap. captureNeighbors pl opp ns acc = Inr cap \<and>
           set cap = set acc \<union>
             (\<Union>n \<in> {n \<in> set ns. stoneAt pl n = Some opp \<and> libertiesOf pl (groupOf pl opp n) = {}}.
                 groupOf pl opp n) \<and>
           (cap = [] \<longleftrightarrow> acc = [] \<and>
              (\<forall>n \<in> set ns. stoneAt pl n = Some opp \<longrightarrow> libertiesOf pl (groupOf pl opp n) \<noteq> {}))"
  using ns
proof (induction ns arbitrary: acc)
  case Nil
  then show ?case by simp
next
  case (Cons n ns)
  let ?weak = "\<lambda>n. stoneAt pl n = Some opp \<and> libertiesOf pl (groupOf pl opp n) = {}"
  let ?ok = "\<lambda>n. stoneAt pl n = Some opp \<longrightarrow> libertiesOf pl (groupOf pl opp n) \<noteq> {}"
  from Cons.prems have nB: "onBoard19 n" and rest: "\<forall>n \<in> set ns. onBoard19 n" by simp_all
  have cn: "cell pl (fst n) (snd n) = Inr (stoneAt pl n)" by (rule cell_standard(1) [OF std nB])
  show ?case
  proof (cases "stoneAt pl n = Some opp")
    case False
    from Cons.IH [OF rest, of acc] obtain cap where
      r: "captureNeighbors pl opp ns acc = Inr cap"
      and s: "set cap = set acc \<union> (\<Union>n \<in> {n \<in> set ns. ?weak n}. groupOf pl opp n)"
      and e: "cap = [] \<longleftrightarrow> acc = [] \<and> (\<forall>n \<in> set ns. ?ok n)" by blast
    from False cn r have r': "captureNeighbors pl opp (n # ns) acc = Inr cap" by simp
    from False have "{m \<in> set (n # ns). ?weak m} = {m \<in> set ns. ?weak m}" by auto
    with s have s': "set cap = set acc \<union> (\<Union>n \<in> {m \<in> set (n # ns). ?weak m}. groupOf pl opp n)"
      by simp
    from False e have e': "cap = [] \<longleftrightarrow> acc = [] \<and> (\<forall>m \<in> set (n # ns). ?ok m)" by simp
    from r' s' e' show ?thesis by blast
  next
    case True
    from checkLiberties_correct [OF std, of "fst n" "snd n" opp] True opp obtain lib grp where
      cl: "checkLiberties pl (fst n) (snd n) (Some opp) = Inr (lib, grp)"
      and g: "set grp = groupOf pl opp n"
      and l: "lib \<longleftrightarrow> libertiesOf pl (groupOf pl opp n) \<noteq> {}" by auto
    from g groupOf_self [of n pl opp] have ne: "grp \<noteq> []" by auto
    show ?thesis
    proof (cases lib)
      case True
      from Cons.IH [OF rest, of acc] obtain cap where
        r: "captureNeighbors pl opp ns acc = Inr cap"
        and s: "set cap = set acc \<union> (\<Union>n \<in> {n \<in> set ns. ?weak n}. groupOf pl opp n)"
        and e: "cap = [] \<longleftrightarrow> acc = [] \<and> (\<forall>n \<in> set ns. ?ok n)" by blast
      from True \<open>stoneAt pl n = Some opp\<close> cn cl r
      have r': "captureNeighbors pl opp (n # ns) acc = Inr cap" by simp
      from True l have "{m \<in> set (n # ns). ?weak m} = {m \<in> set ns. ?weak m}" by auto
      with s have s': "set cap = set acc \<union> (\<Union>n \<in> {m \<in> set (n # ns). ?weak m}. groupOf pl opp n)"
        by simp
      from True l e have e': "cap = [] \<longleftrightarrow> acc = [] \<and> (\<forall>m \<in> set (n # ns). ?ok m)" by simp
      from r' s' e' show ?thesis by blast
    next
      case False
      from Cons.IH [OF rest, of "acc @ grp"] obtain cap where
        r: "captureNeighbors pl opp ns (acc @ grp) = Inr cap"
        and s: "set cap = set (acc @ grp) \<union> (\<Union>n \<in> {n \<in> set ns. ?weak n}. groupOf pl opp n)"
        and e: "cap = [] \<longleftrightarrow> acc @ grp = [] \<and> (\<forall>n \<in> set ns. ?ok n)" by blast
      from False \<open>stoneAt pl n = Some opp\<close> cn cl r
      have r': "captureNeighbors pl opp (n # ns) acc = Inr cap" by simp
      from False l \<open>stoneAt pl n = Some opp\<close>
      have "{m \<in> set (n # ns). ?weak m} = insert n {m \<in> set ns. ?weak m}" by auto
      with s g have s': "set cap = set acc \<union> (\<Union>n \<in> {m \<in> set (n # ns). ?weak m}. groupOf pl opp n)"
        by auto
      from False l e ne \<open>stoneAt pl n = Some opp\<close>
      have e': "cap = [] \<longleftrightarrow> acc = [] \<and> (\<forall>m \<in> set (n # ns). ?ok m)" by simp
      from r' s' e' show ?thesis by blast
    qed
  qed
qed

lemma finishMove_valid:
  assumes "standardBoard newGrid" "stoneAt newGrid (x, y) = Some color" "color \<noteq> EMPTY"
  shows "\<exists>r. finishMove st x y color newGrid cap = Inr r \<and> valid r"
proof -
  from checkLiberties_correct [OF assms] obtain lib grp where
    "checkLiberties newGrid x y (Some color) = Inr (lib, grp)" by blast
  then show ?thesis by (simp add: finishMove_def)
qed

lemma neighbors_onBoard:
  "onBoard19 (x, y) \<Longrightarrow> \<forall>n \<in> set (getNeighbors x y BOARD_SIZE). onBoard19 n"
  using neighbors_iff [of "(x, y)"] by simp

lemma playMoveLocal_standard:
  assumes std: "standardBoard (grid st)" and p: "onBoard19 (x, y)" and col: "color \<noteq> EMPTY"
  shows "\<exists>r. playMoveLocal st x y color = Inr r \<and>
           (\<not> valid r \<longleftrightarrow> isSuicide (grid st) (x, y) color) \<and>
           (\<not> valid r \<longrightarrow> r = reject st ''Suicide move not allowed'')"
proof -
  let ?pl = "setCell (grid st) x y color"
  let ?opp = "opponentOf color"
  let ?ns = "getNeighbors x y BOARD_SIZE"
  have stdpl: "standardBoard ?pl" by (rule setCell_standard [OF std])
  have at_p: "stoneAt ?pl (x, y) = Some color" by (simp add: stoneAt_setCell [OF std p])
  from captureNeighbors_result [OF stdpl opponentOf_neq(1) neighbors_onBoard [OF p], of color "[]"]
  obtain cap where
    cn: "captureNeighbors ?pl ?opp ?ns [] = Inr cap"
    and sc: "set cap = (\<Union>n \<in> {n \<in> set ?ns. stoneAt ?pl n = Some ?opp \<and>
                 libertiesOf ?pl (groupOf ?pl ?opp n) = {}}. groupOf ?pl ?opp n)"
    and ce: "cap = [] \<longleftrightarrow> (\<forall>n \<in> set ?ns. stoneAt ?pl n = Some ?opp \<longrightarrow>
                 libertiesOf ?pl (groupOf ?pl ?opp n) \<noteq> {})"
    by auto
  have nb: "n \<in> set ?ns \<longleftrightarrow> adjacent (x, y) n \<and> onBoard19 n" for n
    using neighbors_iff [OF p, of n] by simp
  have cap_nil: "cap = [] \<longleftrightarrow> capturesNothing ?pl (x, y) color"
    unfolding ce capturesNothing_def
  proof (intro iffI allI impI ballI)
    fix n
    assume a: "\<forall>n \<in> set ?ns. stoneAt ?pl n = Some ?opp \<longrightarrow> libertiesOf ?pl (groupOf ?pl ?opp n) \<noteq> {}"
      and b: "adjacent (x, y) n \<and> stoneAt ?pl n = Some ?opp"
    from b stoneAt_onBoard [OF stdpl] have "onBoard19 n" by blast
    with b nb have "n \<in> set ?ns" by blast
    with a b show "libertiesOf ?pl (groupOf ?pl ?opp n) \<noteq> {}" by blast
  next
    fix n
    assume a: "\<forall>n. adjacent (x, y) n \<and> stoneAt ?pl n = Some ?opp \<longrightarrow>
                 libertiesOf ?pl (groupOf ?pl ?opp n) \<noteq> {}"
      and b: "n \<in> set ?ns" and c: "stoneAt ?pl n = Some ?opp"
    from b nb have "adjacent (x, y) n" by blast
    with a c show "libertiesOf ?pl (groupOf ?pl ?opp n) \<noteq> {}" by blast
  qed
  let ?new = "removeStones ?pl cap"
  have stdnew: "standardBoard ?new" by (rule removeStones_standard [OF stdpl])
  have "(x, y) \<notin> set cap"
  proof
    assume "(x, y) \<in> set cap"
    with sc obtain n where "stoneAt ?pl n = Some ?opp" "(x, y) \<in> groupOf ?pl ?opp n" by auto
    from groupOf_color [OF this] at_p opponentOf_neq(2) [of color] show False by simp
  qed
  then have at_new: "stoneAt ?new (x, y) = Some color"
    by (simp add: stoneAt_removeStones [OF stdpl] at_p)
  from finishMove_valid [OF stdnew at_new col, of st cap] obtain r where
    fin: "finishMove st x y color ?new cap = Inr r" "valid r" by blast
  have unfold: "playMoveLocal st x y color =
      (if length cap = 0
       then (case checkLiberties ?new x y (Some color) of
               Inl e \<Rightarrow> Inl e
             | Inr (hasLiberties, grp) \<Rightarrow>
                 if \<not> hasLiberties then Inr (reject st ''Suicide move not allowed'')
                 else finishMove st x y color ?new cap)
       else finishMove st x y color ?new cap)"
    using cn by (simp add: playMoveLocal_def Let_def opponentOf_def)
  show ?thesis
  proof (cases "cap = []")
    case False
    with unfold fin have "playMoveLocal st x y color = Inr r" by simp
    moreover from False cap_nil have "\<not> isSuicide (grid st) (x, y) color"
      unfolding isSuicide_def by auto
    ultimately show ?thesis using fin(2) by simp
  next
    case True
    then have new: "?new = ?pl" by (simp add: removeStones_def)
    from checkLiberties_correct [OF stdpl at_p col] obtain lib grp where
      cl: "checkLiberties ?pl x y (Some color) = Inr (lib, grp)"
      and l: "lib \<longleftrightarrow> libertiesOf ?pl (groupOf ?pl color (x, y)) \<noteq> {}" by blast
    show ?thesis
    proof (cases lib)
      case True
      with unfold \<open>cap = []\<close> new cl fin have "playMoveLocal st x y color = Inr r" by simp
      moreover from True l have "\<not> isSuicide (grid st) (x, y) color"
        unfolding isSuicide_def by auto
      ultimately show ?thesis using fin(2) by simp
    next
      case False
      with unfold \<open>cap = []\<close> new cl
      have "playMoveLocal st x y color = Inr (reject st ''Suicide move not allowed'')" by simp
      moreover from False l cap_nil \<open>cap = []\<close> have "isSuicide (grid st) (x, y) color"
        unfolding isSuicide_def by auto
      ultimately show ?thesis by (simp add: reject_def)
    qed
  qed
qed

lemma playMoveLocal_reject:
  "playMoveLocal st x y color = Inr r \<Longrightarrow> \<not> valid r \<Longrightarrow> r = reject st ''Suicide move not allowed''"
  by (auto simp: playMoveLocal_def finishMove_def Let_def split: sum.splits if_splits prod.splits)

lemma playMoveSabaki_reject:
  "\<not> valid (playMoveSabaki st x y nextBoard sm) \<Longrightarrow>
     (\<exists>m. playMoveSabaki st x y nextBoard sm = reject st m)"
  by (auto simp: playMoveSabaki_def Let_def split: sum.splits)

lemma reject_fields: "newState (reject st m) = st" "message (reject st m) = Some m" "\<not> valid (reject st m)"
  by (simp_all add: reject_def)

lemma playMove_reject_any:
  assumes r: "playMove sabakiBoard st x y color = Inr r" and nv: "\<not> valid r"
  shows "\<exists>m. r = reject st m"
proof -
  from r obtain s where c: "cell (grid st) x y = Inr s"
    by (auto simp: playMove_def split: sum.splits)
  show ?thesis
  proof (cases "s \<noteq> Some EMPTY \<or> koPoint st = Some (x, y)")
    case True
    with r c show ?thesis by (auto simp: playMove_def split: if_splits)
  next
    case False
    note open_point = this
    have local: "playMoveLocal st x y color = Inr r \<Longrightarrow> ?thesis"
      using playMoveLocal_reject [OF _ nv] by blast
    show ?thesis
    proof (cases sabakiBoard)
      case None
      with r c open_point show ?thesis by (auto simp: playMove_def intro: local)
    next
      case (Some makeMove)
      show ?thesis
      proof (cases "makeMove (B (captures st)) (W (captures st)) (toSign color) (x, y)")
        case (Throws msg)
        with r c open_point Some show ?thesis by (auto simp: playMove_def)
      next
        case (Returns nb)
        show ?thesis
        proof (cases nb)
          case None
          with r c open_point Some Returns show ?thesis by (auto simp: playMove_def intro: local)
        next
          case (Some nextBoard)
          show ?thesis
          proof (cases "signMap nextBoard")
            case None
            with r c open_point \<open>sabakiBoard = Some makeMove\<close> Returns Some show ?thesis
              by (auto simp: playMove_def intro: local)
          next
            case (Some sm)
            with r c open_point \<open>sabakiBoard = Some makeMove\<close> Returns \<open>nb = Some nextBoard\<close>
            have "r = playMoveSabaki st x y nextBoard sm" by (auto simp: playMove_def)
            with nv playMoveSabaki_reject show ?thesis by blast
          qed
        qed
      qed
    qed
  qed
qed

lemma libertiesOf_I:
  "p \<in> G \<Longrightarrow> adjacent p q \<Longrightarrow> stoneAt g q = Some EMPTY \<Longrightarrow> libertiesOf g G \<noteq> {}"
  unfolding libertiesOf_def by blast

text \<open>
  C4.  The claim says that \<open>playMove\<close> rejects a move exactly when the point is occupied, is
  the ko point or the move is a suicide, and that no rejection is a thrown error.  On
  \<open>smallSuicideBoard\<close>, a 9 by 9 grid, Black's move at the empty corner \<open>(0, 8)\<close> between the two
  White stones ends in a thrown \<open>TypeError\<close>, not in a rejection.  On \<open>wideSuicideBoard\<close>, a
  20 by 20 grid, the point \<open>(18, 0)\<close> is empty and not a ko point and Black's stone there
  would have the liberty \<open>(19, 0)\<close>, so the move is no suicide; the local engine rejects it
  as one.
\<close>

theorem playMove_rejection_counterexample:
  "stoneAt wideSuicideBoard (18, 0) = Some EMPTY \<and> koPoint (stateOf wideSuicideBoard) = None \<and>
   \<not> isSuicide wideSuicideBoard (18, 0) BLACK \<and>
   playMove None (stateOf wideSuicideBoard) 18 0 BLACK
     = Inr (reject (stateOf wideSuicideBoard) ''Suicide move not allowed'') \<and>
   stoneAt smallSuicideBoard (0, 8) = Some EMPTY \<and> koPoint (stateOf smallSuicideBoard) = None \<and>
   playMove None (stateOf smallSuicideBoard) 0 8 BLACK = Inl TypeError"
proof -
  have e: "stoneAt wideSuicideBoard (18, 0) = Some EMPTY"
    "koPoint (stateOf wideSuicideBoard) = None"
    "playMove None (stateOf wideSuicideBoard) 18 0 BLACK
       = Inr (reject (stateOf wideSuicideBoard) ''Suicide move not allowed'')"
    "stoneAt smallSuicideBoard (0, 8) = Some EMPTY" "koPoint (stateOf smallSuicideBoard) = None"
    "playMove None (stateOf smallSuicideBoard) 0 8 BLACK = Inl TypeError"
    by code_simp+
  have lib: "stoneAt (setCell wideSuicideBoard 18 0 BLACK) (19, 0) = Some EMPTY" by code_simp
  have "adjacent (18, 0) (19, 0)" by (simp add: adjacent_def)
  from libertiesOf_I [OF groupOf_self this lib]
  have "\<not> isSuicide wideSuicideBoard (18, 0) BLACK" by (simp add: isSuicide_def)
  with e show ?thesis by simp
qed

text \<open>
  On the standard board the local engine rejects as the claim says.  For a 19 by 19 grid, a
  point on the board and a stone colour, \<open>playMove\<close> without an external board returns a
  result (it does not throw), and the result is invalid exactly when the point is occupied,
  is the ko point, or the move is a suicide; the result then carries the unchanged state
  and the reason of the first of these checks that applies.  On every board and on every
  path, delegated or local, an invalid result carries the unchanged state and a reason.
\<close>

theorem playMove_rejection_standard:
  "(standardBoard (grid st) \<and> onBoard19 (x, y) \<and> color \<noteq> EMPTY \<longrightarrow>
      (\<exists>r. playMove None st x y color = Inr r \<and>
         (\<not> valid r \<longleftrightarrow>
            stoneAt (grid st) (x, y) \<noteq> Some EMPTY \<or> koPoint st = Some (x, y) \<or>
            isSuicide (grid st) (x, y) color) \<and>
         (\<not> valid r \<longrightarrow>
            newState r = st \<and>
            message r = Some (if stoneAt (grid st) (x, y) \<noteq> Some EMPTY then ''Point is occupied''
                              else if koPoint st = Some (x, y) then ''Ko rule violation''
                              else ''Suicide move not allowed'')))) \<and>
   (playMove sabakiBoard st x y color = Inr r' \<and> \<not> valid r' \<longrightarrow>
      newState r' = st \<and> message r' \<noteq> None)"
proof (intro conjI impI)
  assume "playMove sabakiBoard st x y color = Inr r' \<and> \<not> valid r'"
  then obtain m where "r' = reject st m" using playMove_reject_any by blast
  then show "newState r' = st" and "message r' \<noteq> None" by (simp_all add: reject_fields)
next
  assume a: "standardBoard (grid st) \<and> onBoard19 (x, y) \<and> color \<noteq> EMPTY"
  then have std: "standardBoard (grid st)" and p: "onBoard19 (x, y)" and col: "color \<noteq> EMPTY"
    by simp_all
  have c: "cell (grid st) x y = Inr (stoneAt (grid st) (x, y))"
    using cell_standard(1) [OF std p] by simp
  let ?occ = "stoneAt (grid st) (x, y) \<noteq> Some EMPTY"
  let ?ko = "koPoint st = Some (x, y)"
  let ?P = "\<lambda>r. playMove None st x y color = Inr r \<and>
         (\<not> valid r \<longleftrightarrow> ?occ \<or> ?ko \<or> isSuicide (grid st) (x, y) color) \<and>
         (\<not> valid r \<longrightarrow>
            newState r = st \<and>
            message r = Some (if ?occ then ''Point is occupied''
                              else if ?ko then ''Ko rule violation''
                              else ''Suicide move not allowed''))"
  show "\<exists>r. ?P r"
  proof (cases ?occ)
    case True
    with c have "playMove None st x y color = Inr (reject st ''Point is occupied'')"
      by (simp add: playMove_def)
    with True have "?P (reject st ''Point is occupied'')" by (simp add: reject_fields)
    then show ?thesis by (rule exI [where x = "reject st ''Point is occupied''"])
  next
    case False
    note free = this
    show ?thesis
    proof (cases ?ko)
      case True
      with c free have "playMove None st x y color = Inr (reject st ''Ko rule violation'')"
        by (simp add: playMove_def)
      with True free have "?P (reject st ''Ko rule violation'')" by (simp add: reject_fields)
      then show ?thesis by (rule exI [where x = "reject st ''Ko rule violation''"])
    next
      case False
      with c free have pm: "playMove None st x y color = playMoveLocal st x y color"
        by (simp add: playMove_def)
      from playMoveLocal_standard [OF std p col] obtain r where
        r: "playMoveLocal st x y color = Inr r"
        and v: "\<not> valid r \<longleftrightarrow> isSuicide (grid st) (x, y) color"
        and m: "\<not> valid r \<longrightarrow> r = reject st ''Suicide move not allowed''" by blast
      from m have "\<not> valid r \<longrightarrow> newState r = st \<and> message r = Some ''Suicide move not allowed''"
        by (auto simp: reject_fields)
      with pm r v free False have "?P r" by simp
      then show ?thesis by (rule exI [where x = r])
    qed
  qed
qed

lemma cornerSuicide_eval:
  "standardBoard cornerSuicideBoard" "onBoard19 (0, 0)"
  "stoneAt (grid (stateOf cornerSuicideBoard)) (0, 0) = Some EMPTY"
  "koPoint (stateOf cornerSuicideBoard) = None"
  "playMove None (stateOf cornerSuicideBoard) 0 0 BLACK
     = Inr (reject (stateOf cornerSuicideBoard) ''Suicide move not allowed'')"
  by code_simp+

theorem playMove_rejection_standard_witness:
  "standardBoard (grid (stateOf cornerSuicideBoard)) \<and> onBoard19 (0, 0) \<and> BLACK \<noteq> EMPTY \<and>
   playMove None (stateOf cornerSuicideBoard) 0 0 BLACK
     = Inr (reject (stateOf cornerSuicideBoard) ''Suicide move not allowed'') \<and>
   isSuicide (grid (stateOf cornerSuicideBoard)) (0, 0) BLACK"
proof -
  have g: "grid (stateOf cornerSuicideBoard) = cornerSuicideBoard" by (simp add: stateOf_def)
  from playMove_rejection_standard [where st = "stateOf cornerSuicideBoard" and x = 0 and y = 0
      and color = BLACK and sabakiBoard = None and r' = "reject (stateOf cornerSuicideBoard) []"]
    cornerSuicide_eval g
  show ?thesis by (auto simp: reject_fields)
qed

section \<open>The safety heuristic off the standard board\<close>

text \<open>
  C8.  The claim says that for every grid the heuristic emits a finding for a maximal group
  exactly when the group has at most two liberties.  On \<open>smallBoard\<close>, a 9 by 9 grid, the lone
  Black stone at \<open>(0, 8)\<close> has the two liberties \<open>(1, 8)\<close> and \<open>(0, 7)\<close>, and the heuristic throws
  instead of reporting it.  On \<open>wideBoard\<close>, a 20 by 20 grid, the adjacent Black stones at
  \<open>(18, 0)\<close> and \<open>(19, 0)\<close> form one group with the three liberties \<open>(17, 0)\<close>, \<open>(18, 1)\<close> and
  \<open>(19, 1)\<close>, and the heuristic reports a Black group at \<open>T19\<close>, the point \<open>(18, 0)\<close>, with two
  liberties.
\<close>

theorem analyzeSafety_off_standard_board:
  "stoneAt smallBoard (0, 8) = Some BLACK \<and>
   stoneAt smallBoard (1, 8) = Some EMPTY \<and> adjacent (0, 8) (1, 8) \<and>
   stoneAt smallBoard (0, 7) = Some EMPTY \<and> adjacent (0, 8) (0, 7) \<and>
   analyzeSafetyHeuristic smallBoard = Inl TypeError \<and>
   stoneAt wideBoard (18, 0) = Some BLACK \<and> stoneAt wideBoard (19, 0) = Some BLACK \<and>
   adjacent (18, 0) (19, 0) \<and>
   stoneAt wideBoard (17, 0) = Some EMPTY \<and> adjacent (18, 0) (17, 0) \<and>
   stoneAt wideBoard (18, 1) = Some EMPTY \<and> adjacent (18, 0) (18, 1) \<and>
   stoneAt wideBoard (19, 1) = Some EMPTY \<and> adjacent (19, 0) (19, 1) \<and>
   toGtpCoordinate 18 0 = ''T19'' \<and>
   analyzeSafetyHeuristic wideBoard = Inr [''DANGER: Black group at T19 has only 2 liberties.'']"
  by code_simp

section \<open>Examples on which the engine departs from its specification\<close>

text \<open>
  C1.  The claim says that the capture count grows by the number of distinct stones removed,
  a group touching the placed stone at two points being counted once.  On \<open>cornerBoard\<close>
  Black plays the corner \<open>(0, 0)\<close> with the local engine: the move is valid, exactly the three
  White stones leave the grid, and Black's capture count grows by six, because the group is
  resolved once from \<open>(1, 0)\<close> and once from \<open>(0, 1)\<close> and appended both times.
\<close>

theorem playMove_counts_group_twice:
  "map_sum id (\<lambda>r. (valid r, removedStones cornerBoard (grid (newState r)),
                       B (captures (newState r)), W (captures (newState r))))
      (playMove None (stateOf cornerBoard) 0 0 BLACK)
   = Inr (True, [(1, 0), (0, 1), (1, 1)], 6, 0)"
  by code_simp

text \<open>
  C2.  The claim says that \<open>playMove\<close> never throws at an in-bounds point of a square board of
  any side.  With the local engine, Black's move at \<open>(2, 4)\<close> on the empty 5 by 5 board and at
  \<open>(0, 8)\<close> on the empty 9 by 9 board throws: the neighbours are enumerated for a board of
  side 19, so the row below the last one is read.
\<close>

theorem playMove_throws_on_small_board:
  "playMove None (stateOf (createEmptyGrid 5)) 2 4 BLACK = Inl TypeError \<and>
   playMove None (stateOf (createEmptyGrid 9)) 0 8 BLACK = Inl TypeError"
  by code_simp

text \<open>
  C3.  The claim says that the ko point is set only when the placed stone's own group is a
  single stone.  On \<open>connectedCaptureBoard\<close> Black captures one stone at \<open>(1, 2)\<close> and the
  placed stone's group has two stones.  The local engine leaves \<open>koPoint\<close> empty; the branch
  that delegates to the external board sets it to the captured point \<open>(1, 1)\<close>.
\<close>

theorem playMove_delegated_ko_ignores_own_group:
  "map_sum id (\<lambda>r. (valid r, grid (newState r) = connectedCaptureAfter, koPoint (newState r)))
      (playMove (Some connectedCaptureSabaki) (stateOf connectedCaptureBoard) 1 2 BLACK)
   = Inr (True, True, Some (1, 1)) \<and>
   map_sum id (\<lambda>r. (valid r, grid (newState r) = connectedCaptureAfter, koPoint (newState r)))
      (playMove None (stateOf connectedCaptureBoard) 1 2 BLACK)
   = Inr (True, True, None) \<and>
   checkLiberties connectedCaptureAfter 1 2 (Some BLACK) = Inr (True, [(1, 2), (1, 3)])"
  by code_simp

end
